theory Spec2Isabelle
  imports Complex_Main
begin

section \<open>Values exchanged with the exchange\<close>

text \<open>
  The downloader (\<^verbatim>\<open>mexc_xaut_usdt.py\<close>) handles the values produced by
  \<^verbatim>\<open>r.json()\<close> and \<^verbatim>\<open>json.loads\<close>. A Python \<^verbatim>\<open>dict\<close> is kept as the list of
  its items (keys are distinct, lookup is \<open>map_of\<close>). JSON floating-point numbers are
  not part of the embedding.
\<close>

datatype json =
    JNull
  | JBool bool
  | JInt int
  | JStr string
  | JArr "json list"
  | JObj "(string \<times> json) list"

text \<open>The exceptions the modelled code can raise, as values.\<close>

datatype error =
    NetworkError string
  | AttributeError
  | TypeError
  | ValueError
  | KeyError
  | OutOfBoundsDatetime
  | DateOutOfRange
  | Unsupported

text \<open>Python truthiness of a decoded value (\<^verbatim>\<open>not x\<close>, \<^verbatim>\<open>x or y\<close>).\<close>

fun truthy :: "json \<Rightarrow> bool" where
  "truthy JNull = False"
| "truthy (JBool b) = b"
| "truthy (JInt v) = (v \<noteq> 0)"
| "truthy (JStr s) = (s \<noteq> [])"
| "truthy (JArr xs) = (xs \<noteq> [])"
| "truthy (JObj kv) = (kv \<noteq> [])"


text \<open>\<^verbatim>\<open>d.get(k)\<close> (default \<^verbatim>\<open>None\<close>) and \<^verbatim>\<open>d.get(k, dflt)\<close> on a dict.\<close>

definition dict_get :: "(string \<times> json) list \<Rightarrow> string \<Rightarrow> json \<Rightarrow> json" where
  "dict_get kv k dflt = (case map_of kv k of None \<Rightarrow> dflt | Some v \<Rightarrow> v)"

text \<open>\<^verbatim>\<open>k in d\<close>.\<close>

definition has_key :: "(string \<times> json) list \<Rightarrow> string \<Rightarrow> bool" where
  "has_key kv k = (map_of kv k \<noteq> None)"

section \<open>Configuration\<close>

definition BASE :: string where
  "BASE = ''https://contract.mexc.com''"

definition KLINE_MAX :: nat where
  "KLINE_MAX = 2000"

section \<open>The GET helper \<^verbatim>\<open>req_get\<close>\<close>

text \<open>
  One HTTP attempt (\<^verbatim>\<open>requests.get\<close>, \<^verbatim>\<open>raise_for_status\<close>, \<^verbatim>\<open>r.json()\<close>) either
  raises or yields the decoded body. The transport gives the outcome of the attempt
  with a given number (0 to 4) for a URL and its query parameters.
\<close>

type_synonym query = "(string \<times> json) list option"

type_synonym transport = "string \<Rightarrow> query \<Rightarrow> nat \<Rightarrow> error + json"

text \<open>
  What the helper did besides returning: how many attempts it issued and the
  durations it slept, in order. The source computes \<^verbatim>\<open>0.6 * (attempt + 1)\<close> in
  floating point; the durations are kept as exact rationals.
\<close>

record io_log =
  attempts :: nat
  slept :: "rat list"

text \<open>
  The envelope normalisation:
  \<^verbatim>\<open>if isinstance(data, dict) and "data" in data and ("success" in data or "code" in data):
      return data["data"]
  return data\<close>
\<close>

definition unwrap :: "json \<Rightarrow> json" where
  "unwrap data =
     (case data of
        JObj kv \<Rightarrow>
          (case map_of kv ''data'' of
             Some inner \<Rightarrow>
               (if has_key kv ''success'' \<or> has_key kv ''code'' then inner else data)
           | None \<Rightarrow> data)
      | _ \<Rightarrow> data)"

text \<open>
  \<^verbatim>\<open>for attempt in range(5): try: ... except Exception as e:
      if attempt == 4: raise
      time.sleep(0.6 * (attempt + 1))
  return {}\<close>
  The recursion runs over the remaining values of \<^verbatim>\<open>range(5)\<close>.
\<close>

fun req_get_attempts ::
  "(nat \<Rightarrow> error + json) \<Rightarrow> nat list \<Rightarrow> io_log \<Rightarrow> io_log \<times> (error + json)" where
  "req_get_attempts http [] w = (w, Inr (JObj []))"
| "req_get_attempts http (attempt # rest) w =
     (let w1 = w\<lparr>attempts := attempts w + 1\<rparr> in
      case http attempt of
        Inr data \<Rightarrow> (w1, Inr (unwrap data))
      | Inl e \<Rightarrow>
          if attempt = 4 then (w1, Inl e)
          else req_get_attempts http rest
                 (w1\<lparr>slept := slept w1 @ [(6 / 10) * of_nat (attempt + 1)]\<rparr>))"

definition req_get :: "transport \<Rightarrow> string \<Rightarrow> query \<Rightarrow> io_log \<times> (error + json)" where
  "req_get tr path params =
     req_get_attempts (tr (BASE @ path) params) [0..<5] \<lparr>attempts = 0, slept = []\<rparr>"

section \<open>The stream recorder\<close>

text \<open>
  The file system as far as the recorder uses it: a path holds the lines written to
  it. A data line is kept as the list of Python values whose renderings the source
  joins with commas: \<open>PyStr v\<close> stands for \<^verbatim>\<open>str(v)\<close> (also the rendering of \<^verbatim>\<open>{v}\<close>
  in an f-string), \<open>Dumps2 v\<close> for \<^verbatim>\<open>json.dumps(json.dumps(v, ensure_ascii=False))\<close>.
\<close>

datatype cell = PyStr json | Dumps2 json

datatype line = Header string | Row "cell list"

type_synonym files = "string \<rightharpoonup> line list"

text \<open>\<^verbatim>\<open>os.path.join(outdir, name)\<close> for a relative file name.\<close>

definition path_join :: "string \<Rightarrow> string \<Rightarrow> string" where
  "path_join d name =
     (if d = [] then name else if last d = CHR ''/'' then d @ name else d @ ''/'' @ name)"

record recorder =
  symbol :: string
  outdir :: string
  run_seconds :: int
  depth_limit :: int
  ws_url :: string
  sinks :: "(string \<times> string) list"

text \<open>The header line each sink gets when its file does not exist yet.\<close>

definition header_of :: "string \<Rightarrow> string" where
  "header_of k =
     (if k = ''deal'' then ''ts,symbol,p,v,T,O,M,t''
      else if k = ''depth'' then ''ts,symbol,limit,version,asks_json,bids_json''
      else if k = ''ticker'' then
        ''ts,symbol,lastPrice,bid1,ask1,volume24,holdVol,indexPrice,fairPrice,fundingRate''
      else if k = ''index'' then ''ts,symbol,price''
      else if k = ''fair'' then ''ts,symbol,price''
      else if k = ''funding'' then ''ts,symbol,rate''
      else [])"

text \<open>\<^verbatim>\<open>for k, path in self.files.items(): if not os.path.exists(path): ...\<close>\<close>

fun init_headers :: "(string \<times> string) list \<Rightarrow> files \<Rightarrow> files" where
  "init_headers [] fs = fs"
| "init_headers ((k, p) # rest) fs =
     init_headers rest (case fs p of None \<Rightarrow> fs(p \<mapsto> [Header (header_of k)]) | Some _ \<Rightarrow> fs)"

text \<open>\<^verbatim>\<open>MexcWSRecorder.__init__\<close>: the constructed object and the file system after it.\<close>

definition recorder_init ::
  "string \<Rightarrow> string \<Rightarrow> int \<Rightarrow> int \<Rightarrow> files \<Rightarrow> recorder \<times> files" where
  "recorder_init symb dir secs depth fs =
     (let fl = [(''deal'', path_join dir ''stream_deal.csv''),
                (''depth'', path_join dir ''stream_depth_full.csv''),
                (''ticker'', path_join dir ''stream_ticker.csv''),
                (''index'', path_join dir ''stream_index_price.csv''),
                (''fair'', path_join dir ''stream_fair_price.csv''),
                (''funding'', path_join dir ''stream_funding_rate.csv'')]
      in (\<lparr>symbol = symb, outdir = dir, run_seconds = max 10 secs, depth_limit = depth,
           ws_url = ''wss://contract.mexc.com/edge'', sinks = fl\<rparr>,
          init_headers fl fs))"

section \<open>K-line pages\<close>

text \<open>
  One row of the data frame built by \<^verbatim>\<open>_kline_payload_to_df\<close>. The column \<^verbatim>\<open>t_iso\<close>
  is the rendering of \<^verbatim>\<open>t\<close> as a date and carries no information of its own; it is
  left out. The OHLCV cells are kept as the decoded values, whatever they are.
\<close>

record candle =
  k_t :: int
  k_interval :: string
  k_open :: json
  k_high :: json
  k_low :: json
  k_close :: json
  k_vol :: json
  k_amount :: json

text \<open>
  \<^verbatim>\<open>pd.to_datetime(df["t"], unit="s", utc=True)\<close> converts the timestamps to
  nanoseconds in 64 bits and raises \<^verbatim>\<open>OutOfBoundsDatetime\<close> when one does not fit:
  a timestamp must lie between \<open>TS_MIN\<close> and \<open>TS_MAX\<close> seconds. The embedding
  covers integer timestamps; a cell of another kind in the \<^verbatim>\<open>time\<close> array is reported
  as \<open>Unsupported\<close>.
\<close>

definition TS_MIN :: int where
  "TS_MIN = - 9223372036"

definition TS_MAX :: int where
  "TS_MAX = 9223372036"

fun to_epoch :: "json \<Rightarrow> error + int" where
  "to_epoch (JInt v) = (if TS_MIN \<le> v \<and> v \<le> TS_MAX then Inr v else Inl OutOfBoundsDatetime)"
| "to_epoch _ = Inl Unsupported"

fun to_epochs :: "json list \<Rightarrow> error + int list" where
  "to_epochs [] = Inr []"
| "to_epochs (x # xs) =
     (case to_epoch x of
        Inl e \<Rightarrow> Inl e
      | Inr v \<Rightarrow> (case to_epochs xs of Inl e \<Rightarrow> Inl e | Inr vs \<Rightarrow> Inr (v # vs)))"

text \<open>
  \<^verbatim>\<open>def col(name): return payload.get(name, [None]*n)\<close> together with what the
  \<^verbatim>\<open>pd.DataFrame\<close> constructor does with the value next to the \<^verbatim>\<open>time\<close> array of
  length \<open>n\<close>: an array must have the same length (\<^verbatim>\<open>ValueError\<close> otherwise), a dict
  cannot be mixed with arrays (\<^verbatim>\<open>ValueError\<close>), a scalar is repeated on every row.
\<close>

definition col :: "(string \<times> json) list \<Rightarrow> nat \<Rightarrow> string \<Rightarrow> error + json list" where
  "col payload n name =
     (case dict_get payload name (JArr (replicate n JNull)) of
        JArr xs \<Rightarrow> if length xs = n then Inr xs else Inl ValueError
      | JObj kv \<Rightarrow> Inl ValueError
      | v \<Rightarrow> Inr (replicate n v))"

text \<open>Sequencing of steps that may raise.\<close>

definition bind_err :: "error + 'a \<Rightarrow> ('a \<Rightarrow> error + 'b) \<Rightarrow> error + 'b" where
  "bind_err m f = (case m of Inl e \<Rightarrow> Inl e | Inr v \<Rightarrow> f v)"

text \<open>
  \<^verbatim>\<open>_kline_payload_to_df(payload, interval)\<close>. A payload whose \<^verbatim>\<open>time\<close> value is
  truthy but not an array has no modelled data frame (\<^verbatim>\<open>len\<close> raises on numbers and
  booleans) and is reported as \<open>Unsupported\<close>.
\<close>

definition kline_payload_to_df :: "json \<Rightarrow> string \<Rightarrow> error + candle list" where
  "kline_payload_to_df payload interval =
     (case payload of
        JObj kv \<Rightarrow>
          (case map_of kv ''time'' of
             None \<Rightarrow> Inr []
           | Some tv \<Rightarrow>
               if \<not> truthy tv then Inr []
               else (case tv of
                  JArr ts \<Rightarrow>
                    (let n = length ts in
                     bind_err (col kv n ''open'') (\<lambda>c_open.
                     bind_err (col kv n ''high'') (\<lambda>c_high.
                     bind_err (col kv n ''low'') (\<lambda>c_low.
                     bind_err (col kv n ''close'') (\<lambda>c_close.
                     bind_err (col kv n ''vol'') (\<lambda>c_vol.
                     bind_err (col kv n ''amount'') (\<lambda>c_amount.
                     bind_err (to_epochs ts) (\<lambda>c_t.
                       Inr (map (\<lambda>i. \<lparr>k_t = c_t ! i, k_interval = interval,
                                       k_open = c_open ! i, k_high = c_high ! i,
                                       k_low = c_low ! i, k_close = c_close ! i,
                                       k_vol = c_vol ! i, k_amount = c_amount ! i\<rparr>)
                                [0..<n])))))))))
                | _ \<Rightarrow> Inl Unsupported))
      | _ \<Rightarrow> Inr [])"

text \<open>
  \<^verbatim>\<open>out.drop_duplicates(subset=["t","interval"])\<close>: pandas keeps the first row of
  each key (\<^verbatim>\<open>keep="first"\<close> is the default).
\<close>

definition key :: "candle \<Rightarrow> int \<times> string" where
  "key c = (k_t c, k_interval c)"

fun drop_duplicates :: "candle list \<Rightarrow> candle list" where
  "drop_duplicates [] = []"
| "drop_duplicates (c # cs) = c # drop_duplicates (filter (\<lambda>d. key d \<noteq> key c) cs)"

text \<open>
  \<^verbatim>\<open>.sort_values(["t"])\<close>. The sort of pandas need not be stable; the frames sorted
  here have pairwise distinct timestamps, for which the ascending order is unique.
\<close>

definition sort_values :: "candle list \<Rightarrow> candle list" where
  "sort_values cs = sort_key k_t cs"

text \<open>\<^verbatim>\<open>int(df["t"].min())\<close> of a non-empty frame, given as its first row and the rest.\<close>

definition earliest_of :: "candle \<Rightarrow> candle list \<Rightarrow> int" where
  "earliest_of c cs = fold (\<lambda>d m. min (k_t d) m) cs (k_t c)"

section \<open>Backfill of k-line history\<close>

text \<open>
  A call of \<^verbatim>\<open>req_get(path, params)\<close> made by a paginator either raises (after its
  retries) or returns the unwrapped payload. The upstream gives that outcome for a
  request, depending also on how many requests the paginator has issued before it, so
  that a server may answer the same request differently over time. The paginators
  return the requests they issued, in order, next to their result; the pacing sleeps
  and progress prints are not modelled.
\<close>

record request =
  rq_path :: string
  rq_params :: "(string \<times> json) list"

type_synonym upstream = "nat \<Rightarrow> request \<Rightarrow> error + json"

text \<open>The three kinds of request: \<^verbatim>\<open>params={"interval": interval, "end": end_s}\<close>,
  \<^verbatim>\<open>params={"interval": interval, "start": cur_start, "end": cur_end}\<close> and
  \<^verbatim>\<open>params={"symbol": symbol, "page_num": page, "page_size": page_size}\<close>.\<close>

definition kline_request :: "string \<Rightarrow> string \<Rightarrow> int \<Rightarrow> request" where
  "kline_request path interval end_s =
     \<lparr>rq_path = path, rq_params = [(''interval'', JStr interval), (''end'', JInt end_s)]\<rparr>"

definition range_request :: "string \<Rightarrow> string \<Rightarrow> int \<Rightarrow> int \<Rightarrow> request" where
  "range_request path interval cur_start cur_end =
     \<lparr>rq_path = path,
      rq_params = [(''interval'', JStr interval), (''start'', JInt cur_start),
                   (''end'', JInt cur_end)]\<rparr>"

definition funding_request :: "string \<Rightarrow> int \<Rightarrow> int \<Rightarrow> request" where
  "funding_request symb page page_size =
     \<lparr>rq_path = ''/api/v1/contract/funding_rate/history'',
      rq_params = [(''symbol'', JStr symb), (''page_num'', JInt page),
                   (''page_size'', JInt page_size)]\<rparr>"

text \<open>
  The backward loop shared by \<^verbatim>\<open>fetch_kline_full_history\<close>,
  \<^verbatim>\<open>fetch_index_kline_full\<close> and \<^verbatim>\<open>fetch_fair_kline_full\<close>, which differ in the
  endpoint path only:
  \<^verbatim>\<open>while True:
      data = req_get(path, params={"interval": interval, "end": end_s})
      df = _kline_payload_to_df(data, interval)
      if df.empty: break
      all_df.append(df)
      earliest = int(df["t"].min())
      if len(df) < KLINE_MAX: break
      if last_min_t is not None and earliest >= last_min_t: break
      last_min_t = earliest
      end_s = earliest - 1\<close>
  It returns the list \<^verbatim>\<open>all_df\<close>.
\<close>

function backward_pages ::
  "upstream \<Rightarrow> string \<Rightarrow> string \<Rightarrow> int \<Rightarrow> candle list list \<Rightarrow> int option \<Rightarrow> request list
     \<Rightarrow> request list \<times> (error + candle list list)" where
  "backward_pages get path interval end_s all_df last_min_t reqs =
     (let rq = kline_request path interval end_s;
          reqs1 = reqs @ [rq]
      in case get (length reqs) rq of
           Inl e \<Rightarrow> (reqs1, Inl e)
         | Inr data \<Rightarrow>
             (case kline_payload_to_df data interval of
                Inl e \<Rightarrow> (reqs1, Inl e)
              | Inr [] \<Rightarrow> (reqs1, Inr all_df)
              | Inr (c # cs) \<Rightarrow>
                  (let all_df1 = all_df @ [c # cs];
                       earliest = earliest_of c cs
                   in if length (c # cs) < KLINE_MAX then (reqs1, Inr all_df1)
                      else if (case last_min_t of None \<Rightarrow> False | Some l \<Rightarrow> earliest \<ge> l)
                        then (reqs1, Inr all_df1)
                      else backward_pages get path interval (earliest - 1) all_df1
                             (Some earliest) reqs1)))"
  by pat_completeness auto
termination
proof (relation "measure (\<lambda>(get, path, interval, end_s, all_df, last_min_t, reqs).
          case last_min_t of None \<Rightarrow> nat (TS_MAX - TS_MIN) + 2
                           | Some l \<Rightarrow> nat (l - TS_MIN) + 1)")
  show "wf (measure (\<lambda>(get, path, interval, end_s, all_df, last_min_t, reqs).
          case last_min_t of None \<Rightarrow> nat (TS_MAX - TS_MIN) + 2
                           | Some l \<Rightarrow> nat (l - TS_MIN) + 1))" by simp
next
  fix get :: upstream and path interval :: string and end_s :: int
    and all_df :: "candle list list" and last_min_t :: "int option" and reqs :: "request list"
    and rq reqs1 data df c cs all_df1 earliest
  assume dec: "kline_payload_to_df data interval = Inr df" and df: "df = c # cs"
    and e: "earliest = earliest_of c cs"
    and guard: "\<not> (case last_min_t of None \<Rightarrow> False | Some l \<Rightarrow> l \<le> earliest)"
  have epochs: "to_epochs ts = Inr vs \<Longrightarrow> \<forall>v\<in>set vs. TS_MIN \<le> v \<and> v \<le> TS_MAX" for ts vs
  proof (induction ts arbitrary: vs)
    case Nil then show ?case by simp
  next
    case (Cons x xs)
    then show ?case
      by (cases x) (auto split: sum.splits if_splits)
  qed
  have len: "to_epochs ts = Inr vs \<Longrightarrow> length vs = length ts" for ts vs
    by (induction ts arbitrary: vs) (auto split: sum.splits)
  have rng: "\<forall>d\<in>set df. TS_MIN \<le> k_t d \<and> k_t d \<le> TS_MAX"
    using dec epochs len
    by (auto simp: kline_payload_to_df_def bind_err_def Let_def
             split: json.splits option.splits if_splits sum.splits)
  have fold_rng: "TS_MIN \<le> m \<and> m \<le> TS_MAX \<Longrightarrow> \<forall>d\<in>set ds. TS_MIN \<le> k_t d \<and> k_t d \<le> TS_MAX
       \<Longrightarrow> TS_MIN \<le> fold (\<lambda>d m. min (k_t d) m) ds m \<and> fold (\<lambda>d m. min (k_t d) m) ds m \<le> TS_MAX"
    for ds :: "candle list" and m
    by (induction ds arbitrary: m) (auto simp: min_def)
  have er: "TS_MIN \<le> earliest \<and> earliest \<le> TS_MAX"
    using rng df e fold_rng[of "k_t c" cs] by (simp add: earliest_of_def)
  show "((get, path, interval, earliest - 1, all_df1, Some earliest, reqs1),
         (get, path, interval, end_s, all_df, last_min_t, reqs))
        \<in> measure (\<lambda>(get, path, interval, end_s, all_df, last_min_t, reqs).
          case last_min_t of None \<Rightarrow> nat (TS_MAX - TS_MIN) + 2
                           | Some l \<Rightarrow> nat (l - TS_MIN) + 1)"
    using er guard by (cases last_min_t) auto
qed

text \<open>
  \<^verbatim>\<open>fetch_kline_full_history(symbol, interval, end_s=None)\<close>; \<open>now\<close> is the value of
  \<^verbatim>\<open>to_epoch_s(now_utc())\<close>. After the loop:
  \<^verbatim>\<open>if not all_df: return <empty frame>
  out = pd.concat(all_df, ignore_index=True)
  out = out.drop_duplicates(subset=["t","interval"]).sort_values(["t"]).reset_index(drop=True)\<close>
\<close>

definition fetch_kline_full_history ::
  "upstream \<Rightarrow> int \<Rightarrow> string \<Rightarrow> string \<Rightarrow> int option
     \<Rightarrow> request list \<times> (error + candle list)" where
  "fetch_kline_full_history get now symb interval end_s =
     (let end0 = (case end_s of None \<Rightarrow> now | Some e \<Rightarrow> e);
          r = backward_pages get (''/api/v1/contract/kline/'' @ symb) interval end0 [] None []
      in (fst r,
          case snd r of
            Inl e \<Rightarrow> Inl e
          | Inr all_df \<Rightarrow>
              if all_df = [] then Inr []
              else Inr (sort_values (drop_duplicates (concat all_df)))))"

text \<open>
  \<^verbatim>\<open>fetch_index_kline_full\<close> and \<^verbatim>\<open>fetch_fair_kline_full\<close> end with
  \<^verbatim>\<open>return pd.concat(all_df, ignore_index=True) if all_df else pd.DataFrame()\<close>.
\<close>

definition fetch_index_kline_full ::
  "upstream \<Rightarrow> int \<Rightarrow> string \<Rightarrow> string \<Rightarrow> request list \<times> (error + candle list)" where
  "fetch_index_kline_full get now symb interval =
     (let r = backward_pages get (''/api/v1/contract/kline/index_price/'' @ symb) interval
                now [] None []
      in (fst r,
          case snd r of
            Inl e \<Rightarrow> Inl e
          | Inr all_df \<Rightarrow> Inr (if all_df \<noteq> [] then concat all_df else [])))"

definition fetch_fair_kline_full ::
  "upstream \<Rightarrow> int \<Rightarrow> string \<Rightarrow> string \<Rightarrow> request list \<times> (error + candle list)" where
  "fetch_fair_kline_full get now symb interval =
     (let r = backward_pages get (''/api/v1/contract/kline/fair_price/'' @ symb) interval
                now [] None []
      in (fst r,
          case snd r of
            Inl e \<Rightarrow> Inl e
          | Inr all_df \<Rightarrow> Inr (if all_df \<noteq> [] then concat all_df else [])))"

text \<open>\<^verbatim>\<open>INTERVAL_SECONDS\<close> and \<^verbatim>\<open>INTERVAL_SECONDS.get(interval, 60)\<close>.\<close>

definition INTERVAL_SECONDS :: "(string \<times> int) list" where
  "INTERVAL_SECONDS =
     [(''Min1'', 60), (''Min5'', 300), (''Min15'', 900), (''Min30'', 1800), (''Min60'', 3600),
      (''Hour4'', 14400), (''Hour8'', 28800), (''Day1'', 86400), (''Week1'', 604800),
      (''Month1'', 2592000)]"

definition interval_seconds :: "string \<Rightarrow> int" where
  "interval_seconds interval =
     (case map_of INTERVAL_SECONDS interval of None \<Rightarrow> 60 | Some v \<Rightarrow> v)"

text \<open>
  The forward loop of \<^verbatim>\<open>fetch_kline_range\<close>:
  \<^verbatim>\<open>step = INTERVAL_SECONDS.get(interval, 60) * KLINE_MAX
  while cur_start <= end_s:
      cur_end = min(end_s, cur_start + step - 1)
      data = req_get(path, params={"interval": interval, "start": cur_start, "end": cur_end})
      df = _kline_payload_to_df(data, interval)
      all_df.append(df)
      cur_start = cur_end + 1\<close>
\<close>

function forward_pages ::
  "upstream \<Rightarrow> string \<Rightarrow> string \<Rightarrow> int \<Rightarrow> int \<Rightarrow> candle list list \<Rightarrow> request list
     \<Rightarrow> request list \<times> (error + candle list list)" where
  "forward_pages get path interval cur_start end_s all_df reqs =
     (let step = interval_seconds interval * int KLINE_MAX in
      if cur_start \<le> end_s then
        (let cur_end = min end_s (cur_start + step - 1);
             rq = range_request path interval cur_start cur_end;
             reqs1 = reqs @ [rq]
         in case get (length reqs) rq of
              Inl e \<Rightarrow> (reqs1, Inl e)
            | Inr data \<Rightarrow>
                (case kline_payload_to_df data interval of
                   Inl e \<Rightarrow> (reqs1, Inl e)
                 | Inr df \<Rightarrow>
                     forward_pages get path interval (cur_end + 1) end_s (all_df @ [df]) reqs1))
      else (reqs, Inr all_df))"
  by pat_completeness auto
termination
proof (relation "measure (\<lambda>(get, path, interval, cur_start, end_s, all_df, reqs).
          nat (end_s - cur_start + 1))")
  show "wf (measure (\<lambda>(get, path, interval, cur_start, end_s, all_df, reqs).
          nat (end_s - cur_start + 1)))" by simp
next
  fix get :: upstream and path interval :: string and cur_start end_s :: int
    and all_df :: "candle list list" and reqs :: "request list"
    and step cur_end rq reqs1 data df
  assume st: "step = interval_seconds interval * int KLINE_MAX"
    and le: "cur_start \<le> end_s"
    and ce: "cur_end = min end_s (cur_start + step - 1)"
  have "0 < v" if "(k, v) \<in> set INTERVAL_SECONDS" for k v
    using that by (auto simp: INTERVAL_SECONDS_def)
  then have "0 < interval_seconds interval"
    by (auto simp: interval_seconds_def split: option.splits dest: map_of_SomeD)
  then have "0 < step"
    using st by (simp add: KLINE_MAX_def)
  then have "cur_start \<le> cur_end"
    using le ce by simp
  then show "((get, path, interval, cur_end + 1, end_s, all_df @ [df], reqs1),
              (get, path, interval, cur_start, end_s, all_df, reqs))
             \<in> measure (\<lambda>(get, path, interval, cur_start, end_s, all_df, reqs).
                  nat (end_s - cur_start + 1))"
    using le by simp
qed

text \<open>\<^verbatim>\<open>fetch_kline_range(symbol, interval, start_s, end_s)\<close>.\<close>

definition fetch_kline_range ::
  "upstream \<Rightarrow> string \<Rightarrow> string \<Rightarrow> int \<Rightarrow> int \<Rightarrow> request list \<times> (error + candle list)" where
  "fetch_kline_range get symb interval start_s end_s =
     (let r = forward_pages get (''/api/v1/contract/kline/'' @ symb) interval start_s end_s [] []
      in (fst r,
          case snd r of
            Inl e \<Rightarrow> Inl e
          | Inr all_df \<Rightarrow>
              if all_df \<noteq> [] then Inr (sort_values (drop_duplicates (concat all_df)))
              else Inr []))"

section \<open>Funding-rate history\<close>

text \<open>
  One row appended by \<^verbatim>\<open>get_funding_history\<close>. The column \<^verbatim>\<open>settleTime_iso\<close> is the
  rendering of a number of milliseconds as a date; it is kept as that number.
\<close>

record funding_row =
  f_symbol :: json
  f_fundingRate :: json
  f_settleTime :: json
  f_settleTime_iso :: int

text \<open>
  \<^verbatim>\<open>datetime.utcfromtimestamp(x.get("settleTime", 0)/1000).isoformat()\<close>: the division
  raises \<^verbatim>\<open>TypeError\<close> on a value that is not a number, and the conversion raises
  (\<^verbatim>\<open>ValueError\<close>, \<^verbatim>\<open>OverflowError\<close> or \<^verbatim>\<open>OSError\<close>, by the size of the number) when the
  date falls outside the years 1 to 9999; \<open>DateOutOfRange\<close> stands for these.
\<close>

fun settle_millis :: "json \<Rightarrow> error + int" where
  "settle_millis (JInt ms) =
     (if - 62135596800000 \<le> ms \<and> ms \<le> 253402300799999 then Inr ms
      else Inl DateOutOfRange)"
| "settle_millis (JBool b) = Inr (if b then 1 else 0)"
| "settle_millis _ = Inl TypeError"

text \<open>The dict built for one element \<^verbatim>\<open>x\<close> of the result list; \<^verbatim>\<open>x.get\<close> needs a dict.\<close>

fun funding_row_of :: "json \<Rightarrow> error + funding_row" where
  "funding_row_of (JObj kv) =
     (case settle_millis (dict_get kv ''settleTime'' (JInt 0)) of
        Inl e \<Rightarrow> Inl e
      | Inr ms \<Rightarrow>
          Inr \<lparr>f_symbol = dict_get kv ''symbol'' JNull,
               f_fundingRate = dict_get kv ''fundingRate'' JNull,
               f_settleTime = dict_get kv ''settleTime'' JNull,
               f_settleTime_iso = ms\<rparr>)"
| "funding_row_of _ = Inl AttributeError"

fun funding_rows_of :: "json list \<Rightarrow> error + funding_row list" where
  "funding_rows_of [] = Inr []"
| "funding_rows_of (x # xs) =
     (case funding_row_of x of
        Inl e \<Rightarrow> Inl e
      | Inr r \<Rightarrow> (case funding_rows_of xs of Inl e \<Rightarrow> Inl e | Inr rs \<Rightarrow> Inr (r # rs)))"

text \<open>
  \<^verbatim>\<open>for x in data["resultList"]: rows.append({...})\<close>: iterating a dict or a string
  yields strings, which have no \<^verbatim>\<open>get\<close>; the other values are not iterable.
\<close>

fun page_rows :: "json \<Rightarrow> error + funding_row list" where
  "page_rows (JArr xs) = funding_rows_of xs"
| "page_rows (JObj kv) = (if kv = [] then Inr [] else Inl AttributeError)"
| "page_rows (JStr s) = (if s = [] then Inr [] else Inl AttributeError)"
| "page_rows _ = Inl TypeError"

text \<open>
  \<^verbatim>\<open>int(v)\<close> on a decoded value. \<^verbatim>\<open>int\<close> parses a string; a string-valued page count
  is not covered by the embedding and reported as \<open>Unsupported\<close>.
\<close>

fun py_int :: "json \<Rightarrow> error + int" where
  "py_int (JInt v) = Inr v"
| "py_int (JBool b) = Inr (if b then 1 else 0)"
| "py_int (JStr s) = Inl Unsupported"
| "py_int _ = Inl TypeError"

text \<open>
  The loop of \<^verbatim>\<open>get_funding_history\<close>:
  \<^verbatim>\<open>while True:
      data = req_get(path, params={"symbol": symbol, "page_num": page, "page_size": page_size})
      if not isinstance(data, dict) or "resultList" not in data: break
      for x in data["resultList"]: rows.append({...})
      total_page = int(data.get("totalPage", page))
      if page >= total_page: break
      page += 1\<close>
  Nothing bounds the number of iterations, so the loop is a partial function:
  \<open>None\<close> means that it does not return.
\<close>

partial_function (option) funding_pages ::
  "upstream \<Rightarrow> string \<Rightarrow> int \<Rightarrow> int \<Rightarrow> funding_row list \<Rightarrow> request list
     \<Rightarrow> (request list \<times> (error + funding_row list)) option" where
  "funding_pages get symb page_size page rows reqs =
     (let rq = funding_request symb page page_size;
          reqs1 = reqs @ [rq]
      in case get (length reqs) rq of
           Inl e \<Rightarrow> Some (reqs1, Inl e)
         | Inr data \<Rightarrow>
             (case data of
                JObj kv \<Rightarrow>
                  (case map_of kv ''resultList'' of
                     None \<Rightarrow> Some (reqs1, Inr rows)
                   | Some rl \<Rightarrow>
                       (case page_rows rl of
                          Inl e \<Rightarrow> Some (reqs1, Inl e)
                        | Inr new \<Rightarrow>
                            (case py_int (dict_get kv ''totalPage'' (JInt page)) of
                               Inl e \<Rightarrow> Some (reqs1, Inl e)
                             | Inr total_page \<Rightarrow>
                                 if page \<ge> total_page then Some (reqs1, Inr (rows @ new))
                                 else funding_pages get symb page_size (page + 1)
                                        (rows @ new) reqs1)))
              | _ \<Rightarrow> Some (reqs1, Inr rows)))"

declare funding_pages.simps [code]

text \<open>\<^verbatim>\<open>get_funding_history(symbol, page_size=1000)\<close>.\<close>

definition get_funding_history ::
  "upstream \<Rightarrow> string \<Rightarrow> int \<Rightarrow> (request list \<times> (error + funding_row list)) option" where
  "get_funding_history get symb page_size = funding_pages get symb page_size 1 [] []"

section \<open>Dispatch of stream messages\<close>






section \<open>Sample inputs and auxiliary notions\<close>

text \<open>A transport that fails twice and then answers, and one that always fails.\<close>

definition flaky :: transport where
  "flaky url q k =
     (if k < 2 then Inl (NetworkError ''timeout'')
      else Inr (JObj [(''success'', JBool True), (''data'', JInt 7)]))"

definition dead :: transport where
  "dead url q k = Inl (NetworkError ''timeout'')"

text \<open>The field arrays of a k-line payload next to \<^verbatim>\<open>time\<close>.\<close>

definition OHLCV :: "string list" where
  "OHLCV = [''open'', ''high'', ''low'', ''close'', ''vol'', ''amount'']"

text \<open>A payload with two timestamps whose only field array is \<^verbatim>\<open>open\<close>.\<close>

definition sparse_page :: "(string \<times> json) list" where
  "sparse_page = [(''time'', JArr (map JInt [60, 120])), (''open'', JArr [JInt 1, JInt 2])]"

text \<open>
  The row decoded from a payload that has a \<^verbatim>\<open>time\<close> array only, such a payload, a
  page of 2000 one-minute bars, and an upstream that answers every request with it.
\<close>

definition bare :: "string \<Rightarrow> int \<Rightarrow> candle" where
  "bare interval v =
     \<lparr>k_t = v, k_interval = interval, k_open = JNull, k_high = JNull, k_low = JNull,
      k_close = JNull, k_vol = JNull, k_amount = JNull\<rparr>"

definition bar_page :: "int list \<Rightarrow> json" where
  "bar_page ts = JObj [(''time'', JArr (map JInt ts))]"

definition more_times :: "int list" where
  "more_times = map (\<lambda>i. 60 * int i) [2..<2001]"

definition full_times :: "int list" where
  "full_times = 60 # more_times"

definition stuck :: upstream where
  "stuck k rq = Inr (bar_page full_times)"



text \<open>
  A page in which the same timestamp occurs twice with different closing prices, the
  two rows it decodes to, and an upstream that answers every request with it.
\<close>

definition dup_page :: json where
  "dup_page = JObj [(''time'', JArr [JInt 60, JInt 60]), (''close'', JArr [JInt 1, JInt 2])]"

definition dup_first :: candle where
  "dup_first = \<lparr>k_t = 60, k_interval = ''Min1'', k_open = JNull, k_high = JNull, k_low = JNull,
                 k_close = JInt 1, k_vol = JNull, k_amount = JNull\<rparr>"

definition dup_last :: candle where
  "dup_last = \<lparr>k_t = 60, k_interval = ''Min1'', k_open = JNull, k_high = JNull, k_low = JNull,
                k_close = JInt 2, k_vol = JNull, k_amount = JNull\<rparr>"

definition dup_upstream :: upstream where
  "dup_upstream k rq = Inr dup_page"

text \<open>
  An upstream holding 2001 one-minute bars: it answers the first request with the
  latest 2000 bars and every later request with the one bar before them.
\<close>

definition history :: upstream where
  "history k rq = Inr (if k = 0 then bar_page full_times else bar_page [0])"


text \<open>
  A consistent server with three pages of one record each, and the row built from
  the record of page \<open>p\<close>.
\<close>

definition three_pages :: upstream where
  "three_pages k rq =
     Inr (JObj [(''resultList'', JArr [JObj [(''symbol'', JStr ''XAUT_USDT''),
                                            (''settleTime'',
                                              JInt (1700000000000 + 28800000 * int k))]]),
                (''totalPage'', JInt 3)])"

definition row_of_page :: "nat \<Rightarrow> funding_row" where
  "row_of_page k =
     \<lparr>f_symbol = JStr ''XAUT_USDT'', f_fundingRate = JNull,
      f_settleTime = JInt (1700000000000 + 28800000 * int k),
      f_settleTime_iso = 1700000000000 + 28800000 * int k\<rparr>"

text \<open>A server whose first page is well formed and whose second answer is not a dict.\<close>

definition broken_second :: upstream where
  "broken_second k rq = (if k = 0 then three_pages k rq else Inr (JStr ''maintenance''))"








section \<open>Properties of the GET helper\<close>

lemma req_get_attempts_success:
  assumes "k < 5" and "http k = Inr d"
  shows "i \<le> k \<Longrightarrow> (\<forall>j. i \<le> j \<and> j < k \<longrightarrow> isl (http j)) \<Longrightarrow>
         req_get_attempts http [i..<5] w =
           (\<lparr>attempts = attempts w + (k - i) + 1,
             slept = slept w @ map (\<lambda>j. (6 / 10) * of_nat (j + 1)) [i..<k]\<rparr>,
            Inr (unwrap d))"
proof (induction "k - i" arbitrary: i w)
  case 0
  then have ik: "i = k" by simp
  have "[k..<5] = k # [Suc k..<5]" using assms(1) by (simp add: upt_conv_Cons)
  then show ?case using assms(2) ik by (simp add: Let_def)
next
  case (Suc n)
  then have lt: "i < k" by simp
  then have i5: "i < 5" and i4: "i \<noteq> 4" using assms(1) by simp_all
  have unf: "[i..<5] = i # [Suc i..<5]" using i5 by (simp add: upt_conv_Cons)
  from Suc.prems lt obtain e where e: "http i = Inl e" by (cases "http i") auto
  have IH: "req_get_attempts http [Suc i..<5] w' =
           (\<lparr>attempts = attempts w' + (k - Suc i) + 1,
             slept = slept w' @ map (\<lambda>j. (6 / 10) * of_nat (j + 1)) [Suc i..<k]\<rparr>,
            Inr (unwrap d))" for w'
    using Suc.hyps(1)[of "Suc i" w'] Suc.hyps(2) Suc.prems lt by simp
  have "[i..<k] = i # [Suc i..<k]" using lt by (simp add: upt_conv_Cons)
  then show ?case using e i4 lt by (simp add: unf Let_def IH)
qed

lemma req_get_attempts_exhausted:
  assumes "http 4 = Inl e"
  shows "i \<le> 4 \<Longrightarrow> (\<forall>j. i \<le> j \<and> j < 4 \<longrightarrow> isl (http j)) \<Longrightarrow>
         req_get_attempts http [i..<5] w =
           (\<lparr>attempts = attempts w + (4 - i) + 1,
             slept = slept w @ map (\<lambda>j. (6 / 10) * of_nat (j + 1)) [i..<4]\<rparr>,
            Inl e)"
proof (induction "4 - i" arbitrary: i w)
  case 0
  then have ik: "i = 4" by simp
  show ?case using assms ik by (simp add: Let_def upt_conv_Cons)
next
  case (Suc n)
  then have lt: "i < 4" by simp
  then have i5: "i < 5" and i4: "i \<noteq> 4" by simp_all
  have unf: "[i..<5] = i # [Suc i..<5]" using i5 by (simp add: upt_conv_Cons)
  from Suc.prems lt obtain e' where e: "http i = Inl e'" by (cases "http i") auto
  have IH: "req_get_attempts http [Suc i..<5] w' =
           (\<lparr>attempts = attempts w' + (4 - Suc i) + 1,
             slept = slept w' @ map (\<lambda>j. (6 / 10) * of_nat (j + 1)) [Suc i..<4]\<rparr>,
            Inl e)" for w'
    using Suc.hyps(1)[of "Suc i" w'] Suc.hyps(2) Suc.prems lt by simp
  have "[i..<4] = i # [Suc i..<4]" using lt by (simp add: upt_conv_Cons)
  then show ?case using e i4 lt by (simp add: unf Let_def IH)
qed

lemma req_get_attempts_count:
  "attempts (fst (req_get_attempts http as w)) \<le> attempts w + length as"
proof (induction as arbitrary: w)
  case Nil then show ?case by simp
next
  case (Cons a as)
  show ?case
  proof (cases "http a")
    case (Inr d) then show ?thesis by (simp add: Let_def)
  next
    case (Inl e)
    show ?thesis
    proof (cases "a = 4")
      case True with Inl show ?thesis by (simp add: Let_def)
    next
      case False
      from Cons.IH[of "w\<lparr>attempts := attempts w + 1,
                         slept := slept w @ [(6 / 10) * of_nat (a + 1)]\<rparr>"]
      show ?thesis using Inl False by (simp add: Let_def)
    qed
  qed
qed

text \<open>
  Claim C6. Whatever the transport does, \<^verbatim>\<open>req_get\<close> issues at most 5 attempts. If
  attempt number \<open>k\<close> (counted from 0, so \<open>k < 5\<close>) is the first that succeeds, the
  helper has issued \<open>k + 1\<close> attempts, has slept 0.6 s times the attempt number (1, 2,
  ...) after each failed one, and returns the unwrapped payload of that attempt. If
  all five attempts fail, it has slept 0.6, 1.2, 1.8 and 2.4 s and raises the
  exception of the fifth attempt.
\<close>

theorem req_get_retry:
  "attempts (fst (req_get tr path params)) \<le> 5
   \<and> (\<forall>k d. k < 5 \<and> (\<forall>j<k. isl (tr (BASE @ path) params j))
            \<and> tr (BASE @ path) params k = Inr d \<longrightarrow>
          req_get tr path params =
            (\<lparr>attempts = k + 1, slept = map (\<lambda>j. (6 / 10) * of_nat (j + 1)) [0..<k]\<rparr>,
             Inr (unwrap d)))
   \<and> (\<forall>e. (\<forall>j<4. isl (tr (BASE @ path) params j))
          \<and> tr (BASE @ path) params 4 = Inl e \<longrightarrow>
          req_get tr path params =
            (\<lparr>attempts = 5, slept = [6 / 10, 12 / 10, 18 / 10, 24 / 10]\<rparr>, Inl e))"
proof (intro conjI allI impI)
  show "attempts (fst (req_get tr path params)) \<le> 5"
    using req_get_attempts_count[of "tr (BASE @ path) params" "[0..<5]"
            "\<lparr>attempts = 0, slept = []\<rparr>"]
    by (simp add: req_get_def)
next
  fix k d
  assume "k < 5 \<and> (\<forall>j<k. isl (tr (BASE @ path) params j))
            \<and> tr (BASE @ path) params k = Inr d"
  then show "req_get tr path params =
            (\<lparr>attempts = k + 1, slept = map (\<lambda>j. (6 / 10) * of_nat (j + 1)) [0..<k]\<rparr>,
             Inr (unwrap d))"
    using req_get_attempts_success[of k "tr (BASE @ path) params" d 0
            "\<lparr>attempts = 0, slept = []\<rparr>"]
    by (simp add: req_get_def)
next
  fix e
  assume "(\<forall>j<4. isl (tr (BASE @ path) params j)) \<and> tr (BASE @ path) params 4 = Inl e"
  then show "req_get tr path params =
            (\<lparr>attempts = 5, slept = [6 / 10, 12 / 10, 18 / 10, 24 / 10]\<rparr>, Inl e)"
    using req_get_attempts_exhausted[of "tr (BASE @ path) params" e 0
            "\<lparr>attempts = 0, slept = []\<rparr>"]
    by (simp add: req_get_def upt_rec)
qed

theorem req_get_retry_witness:
  "req_get flaky ''/api/v1/contract/ping'' None =
     (\<lparr>attempts = 3, slept = [6 / 10, 12 / 10]\<rparr>, Inr (JInt 7))
   \<and> req_get dead ''/api/v1/contract/ping'' None =
     (\<lparr>attempts = 5, slept = [6 / 10, 12 / 10, 18 / 10, 24 / 10]\<rparr>,
      Inl (NetworkError ''timeout''))"
proof -
  have a: "(2::nat) < 5 \<and> (\<forall>j<2. isl (flaky (BASE @ ''/api/v1/contract/ping'') None j))
        \<and> flaky (BASE @ ''/api/v1/contract/ping'') None 2
            = Inr (JObj [(''success'', JBool True), (''data'', JInt 7)])"
    by (simp add: flaky_def)
  have b: "(\<forall>j<4. isl (dead (BASE @ ''/api/v1/contract/ping'') None j))
        \<and> dead (BASE @ ''/api/v1/contract/ping'') None 4 = Inl (NetworkError ''timeout'')"
    by (simp add: dead_def)
  have u: "unwrap (JObj [(''success'', JBool True), (''data'', JInt 7)]) = JInt 7"
    by (simp add: unwrap_def has_key_def)
  have m: "map (\<lambda>j. (6 / 10) * rat_of_nat (j + 1)) [0..<2] = [6 / 10, 12 / 10]"
    by (simp add: upt_rec)
  from req_get_retry[of flaky "''/api/v1/contract/ping''" None] a
  have "req_get flaky ''/api/v1/contract/ping'' None =
     (\<lparr>attempts = 2 + 1, slept = map (\<lambda>j. (6 / 10) * of_nat (j + 1)) [0..<2]\<rparr>,
      Inr (unwrap (JObj [(''success'', JBool True), (''data'', JInt 7)])))"
    by blast
  moreover from req_get_retry[of dead "''/api/v1/contract/ping''" None] b
  have "req_get dead ''/api/v1/contract/ping'' None =
     (\<lparr>attempts = 5, slept = [6 / 10, 12 / 10, 18 / 10, 24 / 10]\<rparr>,
      Inl (NetworkError ''timeout''))"
    by blast
  ultimately show ?thesis by (simp only: u m) simp
qed

section \<open>Properties of the stream recorder\<close>

text \<open>
  Claim C9. The recorder constructed for a requested duration \<open>r\<close> has
  \<^verbatim>\<open>run_seconds\<close> equal to \<open>max 10 r\<close>, hence at least 10, whatever \<open>r\<close> is.
\<close>

theorem recorder_run_seconds:
  "run_seconds (fst (recorder_init symb dir r depth fs)) = max 10 r
   \<and> 10 \<le> run_seconds (fst (recorder_init symb dir r depth fs))"
  by (simp add: recorder_init_def Let_def)

section \<open>Properties of the page decoder\<close>

lemma to_epochs_ints:
  "\<forall>v\<in>set ts. TS_MIN \<le> v \<and> v \<le> TS_MAX \<Longrightarrow> to_epochs (map JInt ts) = Inr ts"
  by (induction ts) auto

lemma col_missing: "map_of kv f = None \<Longrightarrow> col kv n f = Inr (replicate n JNull)"
  by (simp add: col_def dict_get_def)

lemma col_present:
  "map_of kv f = Some (JArr xs) \<Longrightarrow> length xs = n \<Longrightarrow> col kv n f = Inr xs"
  by (simp add: col_def dict_get_def)

lemma col_wellformed:
  assumes "map_of kv f = None \<or> (\<exists>xs. map_of kv f = Some (JArr xs) \<and> length xs = n)"
  shows "\<exists>cells. col kv n f = Inr cells \<and> length cells = n
           \<and> (map_of kv f = None \<longrightarrow> (\<forall>i<n. cells ! i = JNull))
           \<and> (\<forall>xs. map_of kv f = Some (JArr xs) \<longrightarrow> cells = xs)"
  using assms by (auto simp: col_missing col_present)

lemma decode_rows:
  assumes t: "map_of kv ''time'' = Some (JArr ts)" and ne: "ts \<noteq> []"
    and c1: "col kv (length ts) ''open'' = Inr c_open"
    and c2: "col kv (length ts) ''high'' = Inr c_high"
    and c3: "col kv (length ts) ''low'' = Inr c_low"
    and c4: "col kv (length ts) ''close'' = Inr c_close"
    and c5: "col kv (length ts) ''vol'' = Inr c_vol"
    and c6: "col kv (length ts) ''amount'' = Inr c_amount"
    and e: "to_epochs ts = Inr c_t"
  shows "kline_payload_to_df (JObj kv) interval =
           Inr (map (\<lambda>i. \<lparr>k_t = c_t ! i, k_interval = interval,
                           k_open = c_open ! i, k_high = c_high ! i,
                           k_low = c_low ! i, k_close = c_close ! i,
                           k_vol = c_vol ! i, k_amount = c_amount ! i\<rparr>)
                    [0..<length ts])"
  using assms by (simp add: kline_payload_to_df_def bind_err_def Let_def)

text \<open>
  Claim C7. \<^verbatim>\<open>_kline_payload_to_df\<close> returns the empty frame, not an error, for
  a payload that is not a dict, that has no \<^verbatim>\<open>time\<close> key, or whose \<^verbatim>\<open>time\<close> value
  is empty (the empty array, or any other falsy value). For a payload with \<open>n > 0\<close>
  timestamps (integers the date conversion accepts) in which each of the six field
  arrays is either missing or an array of length \<open>n\<close>, it returns \<open>n\<close> rows: row \<open>i\<close>
  carries timestamp \<open>i\<close> and the interval, the \<open>i\<close>-th element of every array that is
  present, and the null placeholder in every field whose array is missing.
\<close>

theorem kline_payload_to_df_tolerant:
  "((\<forall>kv. payload \<noteq> JObj kv) \<longrightarrow> kline_payload_to_df payload interval = Inr [])
   \<and> (map_of kv ''time'' = None \<longrightarrow> kline_payload_to_df (JObj kv) interval = Inr [])
   \<and> (\<forall>tv. map_of kv ''time'' = Some tv \<and> \<not> truthy tv \<longrightarrow>
         kline_payload_to_df (JObj kv) interval = Inr [])
   \<and> (map_of kv ''time'' = Some (JArr []) \<longrightarrow> kline_payload_to_df (JObj kv) interval = Inr [])
   \<and> (map_of kv ''time'' = Some (JArr (map JInt ts)) \<and> ts \<noteq> []
        \<and> (\<forall>v\<in>set ts. TS_MIN \<le> v \<and> v \<le> TS_MAX)
        \<and> (\<forall>f\<in>set OHLCV. map_of kv f = None
               \<or> (\<exists>xs. map_of kv f = Some (JArr xs) \<and> length xs = length ts)) \<longrightarrow>
       (\<exists>rows. kline_payload_to_df (JObj kv) interval = Inr rows
          \<and> length rows = length ts
          \<and> (\<forall>i<length ts.
                k_t (rows ! i) = ts ! i \<and> k_interval (rows ! i) = interval
              \<and> (map_of kv ''open'' = None \<longrightarrow> k_open (rows ! i) = JNull)
              \<and> (map_of kv ''high'' = None \<longrightarrow> k_high (rows ! i) = JNull)
              \<and> (map_of kv ''low'' = None \<longrightarrow> k_low (rows ! i) = JNull)
              \<and> (map_of kv ''close'' = None \<longrightarrow> k_close (rows ! i) = JNull)
              \<and> (map_of kv ''vol'' = None \<longrightarrow> k_vol (rows ! i) = JNull)
              \<and> (map_of kv ''amount'' = None \<longrightarrow> k_amount (rows ! i) = JNull)
              \<and> (\<forall>xs. map_of kv ''open'' = Some (JArr xs) \<longrightarrow> k_open (rows ! i) = xs ! i)
              \<and> (\<forall>xs. map_of kv ''high'' = Some (JArr xs) \<longrightarrow> k_high (rows ! i) = xs ! i)
              \<and> (\<forall>xs. map_of kv ''low'' = Some (JArr xs) \<longrightarrow> k_low (rows ! i) = xs ! i)
              \<and> (\<forall>xs. map_of kv ''close'' = Some (JArr xs) \<longrightarrow> k_close (rows ! i) = xs ! i)
              \<and> (\<forall>xs. map_of kv ''vol'' = Some (JArr xs) \<longrightarrow> k_vol (rows ! i) = xs ! i)
              \<and> (\<forall>xs. map_of kv ''amount'' = Some (JArr xs) \<longrightarrow>
                    k_amount (rows ! i) = xs ! i))))"
proof (intro conjI impI allI)
  assume "\<forall>kv. payload \<noteq> JObj kv"
  then show "kline_payload_to_df payload interval = Inr []"
    by (cases payload) (simp_all add: kline_payload_to_df_def)
next
  assume "map_of kv ''time'' = None"
  then show "kline_payload_to_df (JObj kv) interval = Inr []"
    by (simp add: kline_payload_to_df_def)
next
  fix tv assume "map_of kv ''time'' = Some tv \<and> \<not> truthy tv"
  then show "kline_payload_to_df (JObj kv) interval = Inr []"
    by (simp add: kline_payload_to_df_def)
next
  assume "map_of kv ''time'' = Some (JArr [])"
  then show "kline_payload_to_df (JObj kv) interval = Inr []"
    by (simp add: kline_payload_to_df_def)
next
  assume h: "map_of kv ''time'' = Some (JArr (map JInt ts)) \<and> ts \<noteq> []
        \<and> (\<forall>v\<in>set ts. TS_MIN \<le> v \<and> v \<le> TS_MAX)
        \<and> (\<forall>f\<in>set OHLCV. map_of kv f = None
               \<or> (\<exists>xs. map_of kv f = Some (JArr xs) \<and> length xs = length ts))"
  let ?n = "length (map JInt ts)"
  have n: "?n = length ts" by simp
  have wf: "f \<in> set OHLCV \<Longrightarrow>
      \<exists>cells. col kv ?n f = Inr cells \<and> length cells = ?n
           \<and> (map_of kv f = None \<longrightarrow> (\<forall>i<?n. cells ! i = JNull))
           \<and> (\<forall>xs. map_of kv f = Some (JArr xs) \<longrightarrow> cells = xs)" for f
    using h by (intro col_wellformed) auto
  from wf[of "''open''"] obtain c_open where o: "col kv ?n ''open'' = Inr c_open"
      "map_of kv ''open'' = None \<longrightarrow> (\<forall>i<?n. c_open ! i = JNull)"
      "\<forall>xs. map_of kv ''open'' = Some (JArr xs) \<longrightarrow> c_open = xs"
    by (auto simp: OHLCV_def)
  from wf[of "''high''"] obtain c_high where hi: "col kv ?n ''high'' = Inr c_high"
      "map_of kv ''high'' = None \<longrightarrow> (\<forall>i<?n. c_high ! i = JNull)"
      "\<forall>xs. map_of kv ''high'' = Some (JArr xs) \<longrightarrow> c_high = xs"
    by (auto simp: OHLCV_def)
  from wf[of "''low''"] obtain c_low where lo: "col kv ?n ''low'' = Inr c_low"
      "map_of kv ''low'' = None \<longrightarrow> (\<forall>i<?n. c_low ! i = JNull)"
      "\<forall>xs. map_of kv ''low'' = Some (JArr xs) \<longrightarrow> c_low = xs"
    by (auto simp: OHLCV_def)
  from wf[of "''close''"] obtain c_close where cl: "col kv ?n ''close'' = Inr c_close"
      "map_of kv ''close'' = None \<longrightarrow> (\<forall>i<?n. c_close ! i = JNull)"
      "\<forall>xs. map_of kv ''close'' = Some (JArr xs) \<longrightarrow> c_close = xs"
    by (auto simp: OHLCV_def)
  from wf[of "''vol''"] obtain c_vol where vo: "col kv ?n ''vol'' = Inr c_vol"
      "map_of kv ''vol'' = None \<longrightarrow> (\<forall>i<?n. c_vol ! i = JNull)"
      "\<forall>xs. map_of kv ''vol'' = Some (JArr xs) \<longrightarrow> c_vol = xs"
    by (auto simp: OHLCV_def)
  from wf[of "''amount''"] obtain c_amount where am: "col kv ?n ''amount'' = Inr c_amount"
      "map_of kv ''amount'' = None \<longrightarrow> (\<forall>i<?n. c_amount ! i = JNull)"
      "\<forall>xs. map_of kv ''amount'' = Some (JArr xs) \<longrightarrow> c_amount = xs"
    by (auto simp: OHLCV_def)
  have ep: "to_epochs (map JInt ts) = Inr ts"
    using h by (simp add: to_epochs_ints)
  have ne: "map JInt ts \<noteq> []" using h by simp
  note rows = decode_rows[OF _ ne o(1) hi(1) lo(1) cl(1) vo(1) am(1) ep, of interval]
  show "\<exists>rows. kline_payload_to_df (JObj kv) interval = Inr rows
          \<and> length rows = length ts
          \<and> (\<forall>i<length ts.
                k_t (rows ! i) = ts ! i \<and> k_interval (rows ! i) = interval
              \<and> (map_of kv ''open'' = None \<longrightarrow> k_open (rows ! i) = JNull)
              \<and> (map_of kv ''high'' = None \<longrightarrow> k_high (rows ! i) = JNull)
              \<and> (map_of kv ''low'' = None \<longrightarrow> k_low (rows ! i) = JNull)
              \<and> (map_of kv ''close'' = None \<longrightarrow> k_close (rows ! i) = JNull)
              \<and> (map_of kv ''vol'' = None \<longrightarrow> k_vol (rows ! i) = JNull)
              \<and> (map_of kv ''amount'' = None \<longrightarrow> k_amount (rows ! i) = JNull)
              \<and> (\<forall>xs. map_of kv ''open'' = Some (JArr xs) \<longrightarrow> k_open (rows ! i) = xs ! i)
              \<and> (\<forall>xs. map_of kv ''high'' = Some (JArr xs) \<longrightarrow> k_high (rows ! i) = xs ! i)
              \<and> (\<forall>xs. map_of kv ''low'' = Some (JArr xs) \<longrightarrow> k_low (rows ! i) = xs ! i)
              \<and> (\<forall>xs. map_of kv ''close'' = Some (JArr xs) \<longrightarrow> k_close (rows ! i) = xs ! i)
              \<and> (\<forall>xs. map_of kv ''vol'' = Some (JArr xs) \<longrightarrow> k_vol (rows ! i) = xs ! i)
              \<and> (\<forall>xs. map_of kv ''amount'' = Some (JArr xs) \<longrightarrow>
                    k_amount (rows ! i) = xs ! i))"
    using h o(2,3) hi(2,3) lo(2,3) cl(2,3) vo(2,3) am(2,3)
    by (simp add: rows)
qed


theorem kline_payload_to_df_tolerant_witness:
  "kline_payload_to_df (JArr []) ''Min1'' = Inr []
   \<and> kline_payload_to_df (JObj []) ''Min1'' = Inr []
   \<and> kline_payload_to_df (JObj [(''time'', JArr [])]) ''Min1'' = Inr []
   \<and> (\<exists>rows. kline_payload_to_df (JObj sparse_page) ''Min1'' = Inr rows
         \<and> length rows = 2
         \<and> k_t (rows ! 0) = 60 \<and> k_t (rows ! 1) = 120
         \<and> k_open (rows ! 0) = JInt 1 \<and> k_open (rows ! 1) = JInt 2
         \<and> k_high (rows ! 0) = JNull \<and> k_high (rows ! 1) = JNull)"
proof -
  have a: "\<forall>kv. JArr [] \<noteq> JObj kv" by simp
  have b: "map_of ([] :: (string \<times> json) list) ''time'' = None" by simp
  have c: "map_of [(''time'', JArr [])] ''time'' = Some (JArr [])" by simp
  have d: "map_of sparse_page ''time'' = Some (JArr (map JInt [60, 120])) \<and> [60, 120 :: int] \<noteq> []
        \<and> (\<forall>v\<in>set [60, 120 :: int]. TS_MIN \<le> v \<and> v \<le> TS_MAX)
        \<and> (\<forall>f\<in>set OHLCV. map_of sparse_page f = None
               \<or> (\<exists>xs. map_of sparse_page f = Some (JArr xs) \<and> length xs = length [60, 120 :: int]))"
    by (simp add: sparse_page_def OHLCV_def TS_MIN_def TS_MAX_def)
  have o: "map_of sparse_page ''open'' = Some (JArr [JInt 1, JInt 2])"
    and h: "map_of sparse_page ''high'' = None"
    by (simp_all add: sparse_page_def)
  note T = kline_payload_to_df_tolerant
  from T[where payload = "JArr []" and interval = "''Min1''", THEN conjunct1] a
  have 1: "kline_payload_to_df (JArr []) ''Min1'' = Inr []" by simp
  from T[where kv = "[]" and interval = "''Min1''", THEN conjunct2, THEN conjunct1] b
  have 2: "kline_payload_to_df (JObj []) ''Min1'' = Inr []" by simp
  from T[where kv = "[(''time'', JArr [])]" and interval = "''Min1''",
         THEN conjunct2, THEN conjunct2, THEN conjunct2, THEN conjunct1] c
  have 3: "kline_payload_to_df (JObj [(''time'', JArr [])]) ''Min1'' = Inr []" by simp
  from T[where kv = sparse_page and ts = "[60, 120]" and interval = "''Min1''",
         THEN conjunct2, THEN conjunct2, THEN conjunct2, THEN conjunct2, THEN mp, OF d]
  obtain rows where r: "kline_payload_to_df (JObj sparse_page) ''Min1'' = Inr rows"
     "length rows = length [60, 120 :: int]"
     and all: "\<forall>i<length [60, 120 :: int]. k_t (rows ! i) = [60, 120] ! i
          \<and> k_interval (rows ! i) = ''Min1''
          \<and> (map_of sparse_page ''open'' = None \<longrightarrow> k_open (rows ! i) = JNull)
          \<and> (map_of sparse_page ''high'' = None \<longrightarrow> k_high (rows ! i) = JNull)
          \<and> (map_of sparse_page ''low'' = None \<longrightarrow> k_low (rows ! i) = JNull)
          \<and> (map_of sparse_page ''close'' = None \<longrightarrow> k_close (rows ! i) = JNull)
          \<and> (map_of sparse_page ''vol'' = None \<longrightarrow> k_vol (rows ! i) = JNull)
          \<and> (map_of sparse_page ''amount'' = None \<longrightarrow> k_amount (rows ! i) = JNull)
          \<and> (\<forall>xs. map_of sparse_page ''open'' = Some (JArr xs) \<longrightarrow> k_open (rows ! i) = xs ! i)
          \<and> (\<forall>xs. map_of sparse_page ''high'' = Some (JArr xs) \<longrightarrow> k_high (rows ! i) = xs ! i)
          \<and> (\<forall>xs. map_of sparse_page ''low'' = Some (JArr xs) \<longrightarrow> k_low (rows ! i) = xs ! i)
          \<and> (\<forall>xs. map_of sparse_page ''close'' = Some (JArr xs) \<longrightarrow> k_close (rows ! i) = xs ! i)
          \<and> (\<forall>xs. map_of sparse_page ''vol'' = Some (JArr xs) \<longrightarrow> k_vol (rows ! i) = xs ! i)
          \<and> (\<forall>xs. map_of sparse_page ''amount'' = Some (JArr xs) \<longrightarrow>
                k_amount (rows ! i) = xs ! i)"
    by (elim exE conjE)
  from all[rule_format, of 0] all[rule_format, of 1] o h
  have "k_t (rows ! 0) = 60 \<and> k_t (rows ! 1) = 120
         \<and> k_open (rows ! 0) = JInt 1 \<and> k_open (rows ! 1) = JInt 2
         \<and> k_high (rows ! 0) = JNull \<and> k_high (rows ! 1) = JNull"
    by simp
  with r 1 2 3 show ?thesis by simp
qed

section \<open>Properties of the backward loop\<close>

declare backward_pages.simps [simp del]

declare forward_pages.simps [simp del]

lemma to_epochs_range:
  "to_epochs ts = Inr vs \<Longrightarrow> length vs = length ts \<and> (\<forall>v\<in>set vs. TS_MIN \<le> v \<and> v \<le> TS_MAX)"
proof (induction ts arbitrary: vs)
  case Nil then show ?case by simp
next
  case (Cons x xs)
  then show ?case by (cases x) (auto split: sum.splits if_splits)
qed

lemma kline_payload_rows:
  assumes "kline_payload_to_df data interval = Inr df"
  shows "\<forall>d\<in>set df. TS_MIN \<le> k_t d \<and> k_t d \<le> TS_MAX \<and> k_interval d = interval"
  using assms to_epochs_range
  by (auto simp: kline_payload_to_df_def bind_err_def Let_def
           split: json.splits option.splits if_splits sum.splits)

lemma fold_min_Min:
  "fold (\<lambda>d m. min (k_t d) m) cs (m0 :: int) = Min (insert m0 (k_t ` set cs))"
proof (induction cs arbitrary: m0)
  case Nil then show ?case by simp
next
  case (Cons c cs)
  have "Min (insert (min (k_t c) m0) (k_t ` set cs)) = Min (insert m0 (insert (k_t c) (k_t ` set cs)))"
    by (cases "cs = []") (auto simp: min.commute min.assoc min.left_commute)
  then show ?case using Cons by simp
qed

lemma earliest_of_Min: "earliest_of c cs = Min (k_t ` set (c # cs))"
  by (simp add: earliest_of_def fold_min_Min)



lemma backward_pages_stop:
  assumes "get (length reqs) (kline_request path interval end_s) = Inr data"
    and "kline_payload_to_df data interval = Inr (c # cs)"
    and "length (c # cs) < KLINE_MAX
         \<or> (case last_min_t of None \<Rightarrow> False | Some l \<Rightarrow> l \<le> earliest_of c cs)"
  shows "backward_pages get path interval end_s all_df last_min_t reqs =
           (reqs @ [kline_request path interval end_s], Inr (all_df @ [c # cs]))"
  using assms by (subst backward_pages.simps) (auto simp: Let_def)

lemma backward_pages_continue:
  assumes "get (length reqs) (kline_request path interval end_s) = Inr data"
    and "kline_payload_to_df data interval = Inr (c # cs)"
    and "KLINE_MAX \<le> length (c # cs)"
    and "case last_min_t of None \<Rightarrow> True | Some l \<Rightarrow> earliest_of c cs < l"
  shows "backward_pages get path interval end_s all_df last_min_t reqs =
           backward_pages get path interval (earliest_of c cs - 1) (all_df @ [c # cs])
             (Some (earliest_of c cs)) (reqs @ [kline_request path interval end_s])"
  using assms by (subst backward_pages.simps) (auto simp: Let_def split: option.splits)






lemma decode_bar_page:
  assumes "ts \<noteq> []" and "\<forall>v\<in>set ts. TS_MIN \<le> v \<and> v \<le> TS_MAX"
  shows "kline_payload_to_df (bar_page ts) interval = Inr (map (bare interval) ts)"
proof -
  have "map (\<lambda>i. \<lparr>k_t = ts ! i, k_interval = interval,
                   k_open = replicate (length ts) JNull ! i,
                   k_high = replicate (length ts) JNull ! i,
                   k_low = replicate (length ts) JNull ! i,
                   k_close = replicate (length ts) JNull ! i,
                   k_vol = replicate (length ts) JNull ! i,
                   k_amount = replicate (length ts) JNull ! i\<rparr>) [0..<length ts]
        = map (bare interval) ts"
    by (rule nth_equalityI) (simp_all add: bare_def)
  then show ?thesis
    using assms
    by (simp add: kline_payload_to_df_def bar_page_def col_def dict_get_def bind_err_def
          to_epochs_ints)
qed

lemma more_times_facts:
  "length more_times = 1999" "\<forall>v\<in>set more_times. 120 \<le> v \<and> v \<le> 120000"
  by (auto simp: more_times_def simp del: upt_rec_numeral)

lemma full_times_facts:
  "length full_times = 2000" "full_times \<noteq> []"
  "\<forall>v\<in>set full_times. TS_MIN \<le> v \<and> v \<le> TS_MAX"
  using more_times_facts by (auto simp: full_times_def TS_MIN_def TS_MAX_def)

lemma earliest_full_times:
  "earliest_of (bare interval 60) (map (bare interval) more_times) = 60"
proof -
  have "Min (k_t ` set (bare interval 60 # map (bare interval) more_times)) = 60"
    using more_times_facts(2) by (intro Min_eqI) (auto simp: bare_def)
  then show ?thesis by (simp only: earliest_of_Min)
qed


section \<open>Properties of the backfills\<close>

lemma drop_duplicates_subset: "set (drop_duplicates cs) \<subseteq> set cs"
  by (induction cs rule: drop_duplicates.induct) auto

lemma drop_duplicates_keys: "key ` set (drop_duplicates cs) = key ` set cs"
proof (induction cs rule: drop_duplicates.induct)
  case 1 show ?case by simp
next
  case (2 c cs)
  have "key ` set (c # cs) = insert (key c) (key ` set (filter (\<lambda>d. key d \<noteq> key c) cs))"
    by auto
  with 2 show ?case by simp
qed

lemma drop_duplicates_distinct: "distinct (map key (drop_duplicates cs))"
proof (induction cs rule: drop_duplicates.induct)
  case 1 show ?case by simp
next
  case (2 c cs)
  have "key c \<notin> key ` set (drop_duplicates (filter (\<lambda>d. key d \<noteq> key c) cs))"
    unfolding drop_duplicates_keys by auto
  with 2 show ?case by simp
qed

lemma find_filter_other:
  "k \<noteq> k' \<Longrightarrow> find (\<lambda>d. key d = k) (filter (\<lambda>d. key d \<noteq> k') cs) = find (\<lambda>d. key d = k) cs"
  by (induction cs) auto

lemma drop_duplicates_first:
  "c \<in> set (drop_duplicates cs) \<Longrightarrow> find (\<lambda>d. key d = key c) cs = Some c"
proof (induction cs rule: drop_duplicates.induct)
  case 1 then show ?case by simp
next
  case (2 x xs)
  show ?case
  proof (cases "c = x")
    case True then show ?thesis by simp
  next
    case False
    with "2.prems" have in_rest: "c \<in> set (drop_duplicates (filter (\<lambda>d. key d \<noteq> key x) xs))"
      by simp
    then have "c \<in> set (filter (\<lambda>d. key d \<noteq> key x) xs)"
      using drop_duplicates_subset by blast
    then have ne: "key c \<noteq> key x" by simp
    from "2.IH"[OF in_rest] have "find (\<lambda>d. key d = key c) xs = Some c"
      using ne by (simp add: find_filter_other)
    with ne show ?thesis by auto
  qed
qed

lemma sort_values_set: "set (sort_values cs) = set cs"
  by (simp add: sort_values_def)

lemma sort_values_sorted: "sorted (map k_t (sort_values cs))"
  by (simp add: sort_values_def)

lemma sort_values_keys_distinct:
  "distinct (map key cs) \<Longrightarrow> distinct (map key (sort_values cs))"
  by (simp add: sort_values_def distinct_map)

lemma sort_values_unique:
  assumes "distinct (map k_t cs)" and "set ys = set cs"
    and "sorted (map k_t ys)" and "distinct (map k_t ys)"
  shows "ys = sort_values cs"
proof (rule map_sorted_distinct_set_unique[where f = k_t])
  show "inj_on k_t (set ys \<union> set (sort_values cs))"
    using assms(1,2) by (simp add: sort_values_def distinct_map)
  show "sorted (map k_t ys)" "distinct (map k_t ys)" by fact+
  show "sorted (map k_t (sort_values cs))" by (simp add: sort_values_def)
  show "distinct (map k_t (sort_values cs))"
    using assms(1) by (simp add: sort_values_def distinct_map)
  show "set ys = set (sort_values cs)" using assms(2) by (simp add: sort_values_def)
qed

lemma same_interval_distinct_t:
  assumes "\<forall>c\<in>set cs. k_interval c = interval" and "distinct (map key cs)"
  shows "distinct (map k_t cs)"
proof -
  have "inj_on k_t (set cs)"
  proof (rule inj_onI)
    fix x y assume "x \<in> set cs" "y \<in> set cs" "k_t x = k_t y"
    then have "key x = key y" using assms(1) by (simp add: key_def)
    then show "x = y" using assms(2) \<open>x \<in> set cs\<close> \<open>y \<in> set cs\<close>
      by (meson distinct_map inj_onD)
  qed
  moreover have "distinct cs" using assms(2) by (simp add: distinct_map)
  ultimately show ?thesis by (simp add: distinct_map)
qed

lemma postprocess_props:
  assumes "\<forall>c\<in>set acc. k_interval c = interval"
  defines "out \<equiv> sort_values (drop_duplicates acc)"
  shows "sorted_wrt (<) (map k_t out)" and "distinct (map key out)"
    and "key ` set out = key ` set acc"
    and "\<forall>c\<in>set out. find (\<lambda>d. key d = key c) acc = Some c"
proof -
  show d: "distinct (map key out)"
    unfolding out_def by (intro sort_values_keys_distinct drop_duplicates_distinct)
  have "\<forall>c\<in>set out. k_interval c = interval"
    using assms(1) drop_duplicates_subset[of acc] by (auto simp: out_def sort_values_set)
  then have "distinct (map k_t out)" using d by (rule same_interval_distinct_t)
  moreover have "sorted (map k_t out)" unfolding out_def by (rule sort_values_sorted)
  ultimately show "sorted_wrt (<) (map k_t out)" by (simp add: strict_sorted_iff)
  show "key ` set out = key ` set acc"
    by (simp add: out_def sort_values_set drop_duplicates_keys)
  show "\<forall>c\<in>set out. find (\<lambda>d. key d = key c) acc = Some c"
    by (simp add: out_def sort_values_set drop_duplicates_first)
qed

lemma backward_pages_interval:
  "snd (backward_pages get path interval end_s all_df last_min_t reqs) = Inr pages \<Longrightarrow>
   \<forall>p\<in>set all_df. \<forall>c\<in>set p. k_interval c = interval \<Longrightarrow>
   \<forall>p\<in>set pages. \<forall>c\<in>set p. k_interval c = interval"
proof (induction get path interval end_s all_df last_min_t reqs rule: backward_pages.induct)
  case (1 get path interval end_s all_df last_min_t reqs)
  let ?rq = "kline_request path interval end_s"
  from "1.prems"(1) obtain data where g: "get (length reqs) ?rq = Inr data"
    by (subst (asm) backward_pages.simps) (auto simp: Let_def split: sum.splits)
  from "1.prems"(1) g obtain df where dec: "kline_payload_to_df data interval = Inr df"
    by (subst (asm) backward_pages.simps) (auto simp: Let_def split: sum.splits)
  have rows: "\<forall>c\<in>set df. k_interval c = interval"
    using kline_payload_rows[OF dec] by simp
  show ?case
  proof (cases df)
    case Nil
    with "1.prems" g dec show ?thesis
      by (subst (asm) backward_pages.simps) (simp add: Let_def)
  next
    case (Cons c cs)
    let ?e = "earliest_of c cs"
    have acc: "\<forall>p\<in>set (all_df @ [c # cs]). \<forall>d\<in>set p. k_interval d = interval"
      using "1.prems"(2) rows Cons by auto
    show ?thesis
    proof (cases "length (c # cs) < KLINE_MAX
                 \<or> (case last_min_t of None \<Rightarrow> False | Some l \<Rightarrow> l \<le> ?e)")
      case True
      have dec': "kline_payload_to_df data interval = Inr (c # cs)" using dec Cons by simp
      from backward_pages_stop[of get reqs path interval end_s data c cs last_min_t all_df]
        g dec' True "1.prems"(1)
      have "pages = all_df @ [c # cs]" by simp
      with acc show ?thesis by simp
    next
      case False
      then have f1: "\<not> length (c # cs) < KLINE_MAX"
        and f2: "\<not> (case last_min_t of None \<Rightarrow> False | Some l \<Rightarrow> ?e \<ge> l)" by auto
      have "backward_pages get path interval end_s all_df last_min_t reqs
            = backward_pages get path interval (?e - 1) (all_df @ [c # cs]) (Some ?e)
                (reqs @ [?rq])"
        using g dec Cons f1 f2 by (subst backward_pages.simps) (simp add: Let_def)
      with "1.prems"(1)
      have r: "snd (backward_pages get path interval (?e - 1) (all_df @ [c # cs]) (Some ?e)
                (reqs @ [?rq])) = Inr pages" by simp
      show ?thesis
        using "1.IH"[OF refl refl g _ _ refl refl f1 f2 r acc] dec Cons by simp
    qed
  qed
qed

lemma forward_pages_interval:
  "snd (forward_pages get path interval cur_start end_s all_df reqs) = Inr pages \<Longrightarrow>
   \<forall>p\<in>set all_df. \<forall>c\<in>set p. k_interval c = interval \<Longrightarrow>
   \<forall>p\<in>set pages. \<forall>c\<in>set p. k_interval c = interval"
proof (induction get path interval cur_start end_s all_df reqs rule: forward_pages.induct)
  case (1 get path interval cur_start end_s all_df reqs)
  show ?case
  proof (cases "cur_start \<le> end_s")
    case False
    with "1.prems" show ?thesis by (subst (asm) forward_pages.simps) (simp add: Let_def)
  next
    case True
    let ?step = "interval_seconds interval * int KLINE_MAX"
    let ?ce = "min end_s (cur_start + ?step - 1)"
    let ?rq = "range_request path interval cur_start ?ce"
    from "1.prems"(1) True obtain data where g: "get (length reqs) ?rq = Inr data"
      by (subst (asm) forward_pages.simps) (auto simp: Let_def split: sum.splits)
    from "1.prems"(1) True g obtain df where dec: "kline_payload_to_df data interval = Inr df"
      by (subst (asm) forward_pages.simps) (auto simp: Let_def split: sum.splits)
    have acc: "\<forall>p\<in>set (all_df @ [df]). \<forall>d\<in>set p. k_interval d = interval"
      using "1.prems"(2) kline_payload_rows[OF dec] by auto
    have "forward_pages get path interval cur_start end_s all_df reqs
          = forward_pages get path interval (?ce + 1) end_s (all_df @ [df]) (reqs @ [?rq])"
      using True g dec by (subst forward_pages.simps) (simp add: Let_def)
    with "1.prems"(1)
    have r: "snd (forward_pages get path interval (?ce + 1) end_s (all_df @ [df]) (reqs @ [?rq]))
             = Inr pages" by simp
    show ?thesis
      using "1.IH"[OF refl True refl refl refl g dec r acc] .
  qed
qed

text \<open>
  Claim C1, with first-seen in place of last-seen. When the backward loop of
  \<^verbatim>\<open>fetch_kline_full_history\<close> (the forward loop of \<^verbatim>\<open>fetch_kline_range\<close>) ends with
  the accumulated pages \<open>pages\<close>, the function returns the rows of \<open>concat pages\<close>
  deduplicated and sorted: the result is strictly ascending by \<^verbatim>\<open>t\<close>, holds every key
  \<open>(t, interval)\<close> of the accumulated rows exactly once, and the row it holds for a
  key is the first row with that key in \<open>concat pages\<close>.
\<close>

theorem backfill_dedup_first_sorted:
  "(snd (backward_pages get (''/api/v1/contract/kline/'' @ symb) interval
           (case end_s of None \<Rightarrow> now | Some e \<Rightarrow> e) [] None []) = Inr pages \<longrightarrow>
      (let out = sort_values (drop_duplicates (concat pages)) in
       snd (fetch_kline_full_history get now symb interval end_s) = Inr out
       \<and> sorted_wrt (<) (map k_t out) \<and> distinct (map key out)
       \<and> key ` set out = key ` set (concat pages)
       \<and> (\<forall>c\<in>set out. find (\<lambda>d. key d = key c) (concat pages) = Some c)))
   \<and> (snd (forward_pages get (''/api/v1/contract/kline/'' @ symb) interval start_s stop_s [] [])
         = Inr pages \<longrightarrow>
      (let out = sort_values (drop_duplicates (concat pages)) in
       snd (fetch_kline_range get symb interval start_s stop_s) = Inr out
       \<and> sorted_wrt (<) (map k_t out) \<and> distinct (map key out)
       \<and> key ` set out = key ` set (concat pages)
       \<and> (\<forall>c\<in>set out. find (\<lambda>d. key d = key c) (concat pages) = Some c)))"
proof (intro conjI impI)
  assume h: "snd (backward_pages get (''/api/v1/contract/kline/'' @ symb) interval
           (case end_s of None \<Rightarrow> now | Some e \<Rightarrow> e) [] None []) = Inr pages"
  have "\<forall>p\<in>set pages. \<forall>c\<in>set p. k_interval c = interval"
    using backward_pages_interval[OF h] by simp
  then have iv: "\<forall>c\<in>set (concat pages). k_interval c = interval" by auto
  have e: "pages = [] \<Longrightarrow> sort_values (drop_duplicates (concat pages)) = []"
    by (simp add: sort_values_def)
  have "snd (fetch_kline_full_history get now symb interval end_s)
        = Inr (sort_values (drop_duplicates (concat pages)))"
    using h e by (simp add: fetch_kline_full_history_def Let_def)
  then show "let out = sort_values (drop_duplicates (concat pages)) in
       snd (fetch_kline_full_history get now symb interval end_s) = Inr out
       \<and> sorted_wrt (<) (map k_t out) \<and> distinct (map key out)
       \<and> key ` set out = key ` set (concat pages)
       \<and> (\<forall>c\<in>set out. find (\<lambda>d. key d = key c) (concat pages) = Some c)"
    unfolding Let_def using postprocess_props[OF iv] by blast
next
  assume h: "snd (forward_pages get (''/api/v1/contract/kline/'' @ symb) interval start_s stop_s
                   [] []) = Inr pages"
  have "\<forall>p\<in>set pages. \<forall>c\<in>set p. k_interval c = interval"
    using forward_pages_interval[OF h] by simp
  then have iv: "\<forall>c\<in>set (concat pages). k_interval c = interval" by auto
  have e: "pages = [] \<Longrightarrow> sort_values (drop_duplicates (concat pages)) = []"
    by (simp add: sort_values_def)
  have "snd (fetch_kline_range get symb interval start_s stop_s)
        = Inr (sort_values (drop_duplicates (concat pages)))"
    using h e by (simp add: fetch_kline_range_def Let_def)
  then show "let out = sort_values (drop_duplicates (concat pages)) in
       snd (fetch_kline_range get symb interval start_s stop_s) = Inr out
       \<and> sorted_wrt (<) (map k_t out) \<and> distinct (map key out)
       \<and> key ` set out = key ` set (concat pages)
       \<and> (\<forall>c\<in>set out. find (\<lambda>d. key d = key c) (concat pages) = Some c)"
    unfolding Let_def using postprocess_props[OF iv] by blast
qed

lemma decode_dup_page: "kline_payload_to_df dup_page ''Min1'' = Inr [dup_first, dup_last]"
  by (simp add: kline_payload_to_df_def dup_page_def dup_first_def dup_last_def col_def
        dict_get_def bind_err_def TS_MIN_def TS_MAX_def upt_rec)

lemma backward_dup:
  "backward_pages dup_upstream path ''Min1'' e [] None [] =
     ([kline_request path ''Min1'' e], Inr [[dup_first, dup_last]])"
  using backward_pages_stop[of dup_upstream "[]" path "''Min1''" e dup_page dup_first
          "[dup_last]" None "[]"]
  by (simp add: dup_upstream_def decode_dup_page KLINE_MAX_def)

lemma forward_dup:
  "forward_pages dup_upstream path ''Min1'' 0 1000 [] [] =
     ([range_request path ''Min1'' 0 1000], Inr [[dup_first, dup_last]])"
proof -
  have s: "interval_seconds ''Min1'' * int KLINE_MAX = 120000"
    by (simp add: interval_seconds_def INTERVAL_SECONDS_def KLINE_MAX_def)
  have "forward_pages dup_upstream path ''Min1'' 0 1000 [] [] =
        forward_pages dup_upstream path ''Min1'' 1001 1000 [[dup_first, dup_last]]
          [range_request path ''Min1'' 0 1000]"
    by (subst forward_pages.simps) (simp add: s Let_def dup_upstream_def decode_dup_page)
  also have "\<dots> = ([range_request path ''Min1'' 0 1000], Inr [[dup_first, dup_last]])"
    by (subst forward_pages.simps) (simp add: Let_def)
  finally show ?thesis .
qed

lemma dedup_dup: "sort_values (drop_duplicates [dup_first, dup_last]) = [dup_first]"
  by (simp add: sort_values_def key_def dup_first_def dup_last_def)

theorem backfill_dedup_first_sorted_witness:
  "snd (fetch_kline_full_history dup_upstream 1000 ''XAUT_USDT'' ''Min1'' None) = Inr [dup_first]
   \<and> snd (fetch_kline_range dup_upstream ''XAUT_USDT'' ''Min1'' 0 1000) = Inr [dup_first]
   \<and> find (\<lambda>d. key d = key dup_first) [dup_first, dup_last] = Some dup_first"
proof -
  let ?p = "''/api/v1/contract/kline/'' @ ''XAUT_USDT''"
  have a: "snd (backward_pages dup_upstream ?p ''Min1''
                 (case None of None \<Rightarrow> 1000 | Some e \<Rightarrow> e) [] None [])
           = Inr [[dup_first, dup_last]]"
    by (simp add: backward_dup)
  have b: "snd (forward_pages dup_upstream ?p ''Min1'' 0 1000 [] []) = Inr [[dup_first, dup_last]]"
    by (simp add: forward_dup)
  note T = backfill_dedup_first_sorted[where get = dup_upstream and symb = "''XAUT_USDT''"
      and interval = "''Min1''" and pages = "[[dup_first, dup_last]]"]
  have c: "concat [[dup_first, dup_last]] = [dup_first, dup_last]" by simp
  from T[where end_s = None and now = 1000, THEN conjunct1, THEN mp, OF a,
         unfolded Let_def c dedup_dup]
  have 1: "snd (fetch_kline_full_history dup_upstream 1000 ''XAUT_USDT'' ''Min1'' None)
             = Inr [dup_first]
           \<and> (\<forall>c\<in>set [dup_first]. find (\<lambda>d. key d = key c) [dup_first, dup_last] = Some c)"
    by simp
  from T[where start_s = 0 and stop_s = 1000, THEN conjunct2, THEN mp, OF b,
         unfolded Let_def c dedup_dup]
  have 2: "snd (fetch_kline_range dup_upstream ''XAUT_USDT'' ''Min1'' 0 1000) = Inr [dup_first]"
    by simp
  from 1 2 show ?thesis by simp
qed

text \<open>
  Claim C1 as stated fails: the accumulated rows \<open>dup_first\<close>, \<open>dup_last\<close> have the
  same key and differ, and both backfills return the first-seen one.
\<close>

theorem backfill_last_seen_counterexample:
  "snd (backward_pages dup_upstream ''/api/v1/contract/kline/XAUT_USDT'' ''Min1'' 1000 [] None [])
     = Inr [[dup_first, dup_last]]
   \<and> key dup_last = key dup_first \<and> dup_last \<noteq> dup_first
   \<and> snd (fetch_kline_full_history dup_upstream 1000 ''XAUT_USDT'' ''Min1'' None) = Inr [dup_first]
   \<and> snd (forward_pages dup_upstream ''/api/v1/contract/kline/XAUT_USDT'' ''Min1'' 0 1000 [] [])
     = Inr [[dup_first, dup_last]]
   \<and> snd (fetch_kline_range dup_upstream ''XAUT_USDT'' ''Min1'' 0 1000) = Inr [dup_first]"
proof -
  have k: "key dup_last = key dup_first \<and> dup_last \<noteq> dup_first"
    by (simp add: key_def dup_first_def dup_last_def)
  have c: "concat [[dup_first, dup_last]] = [dup_first, dup_last]" by simp
  have "snd (fetch_kline_full_history dup_upstream 1000 ''XAUT_USDT'' ''Min1'' None)
          = Inr [dup_first]"
    by (simp only: fetch_kline_full_history_def Let_def option.case append.simps backward_dup
          snd_conv sum.case c dedup_dup) simp
  moreover have "snd (fetch_kline_range dup_upstream ''XAUT_USDT'' ''Min1'' 0 1000)
          = Inr [dup_first]"
    by (simp only: fetch_kline_range_def Let_def append.simps forward_dup
          snd_conv sum.case c dedup_dup) simp
  ultimately show ?thesis
    using k by (simp add: backward_dup forward_dup)
qed

lemma backward_history:
  "backward_pages history path interval e [] None [] =
     ([kline_request path interval e, kline_request path interval 59],
      Inr [map (bare interval) full_times, [bare interval 0]])"
proof -
  let ?c = "bare interval 60"
  let ?cs = "map (bare interval) more_times"
  have df: "map (bare interval) full_times = ?c # ?cs"
    by (simp add: full_times_def)
  have dec: "kline_payload_to_df (bar_page full_times) interval = Inr (?c # ?cs)"
    using decode_bar_page[OF full_times_facts(2,3), of interval] df by simp
  have dec0: "kline_payload_to_df (bar_page [0]) interval = Inr [bare interval 0]"
    using decode_bar_page[of "[0]" interval] by (simp add: TS_MIN_def TS_MAX_def)
  have "backward_pages history path interval e [] None [] =
        backward_pages history path interval (earliest_of ?c ?cs - 1) ([] @ [?c # ?cs])
          (Some (earliest_of ?c ?cs)) ([] @ [kline_request path interval e])"
    using dec
    by (intro backward_pages_continue[where data = "bar_page full_times"])
       (simp_all add: history_def KLINE_MAX_def more_times_facts)
  also have "\<dots> = backward_pages history path interval 59 [?c # ?cs] (Some 60)
                     [kline_request path interval e]"
    by (simp add: earliest_full_times)
  also have "\<dots> = ([kline_request path interval e] @ [kline_request path interval 59],
                    Inr ([?c # ?cs] @ [[bare interval 0]]))"
    using dec0
    by (intro backward_pages_stop[where data = "bar_page [0]"])
       (simp_all add: history_def KLINE_MAX_def)
  finally show ?thesis by (simp add: df)
qed

lemma backward_stuck:
  "backward_pages stuck path interval e [] None [] =
     ([kline_request path interval e, kline_request path interval 59],
      Inr [map (bare interval) full_times, map (bare interval) full_times])"
proof -
  let ?c = "bare interval 60"
  let ?cs = "map (bare interval) more_times"
  have df: "map (bare interval) full_times = ?c # ?cs"
    by (simp add: full_times_def)
  have dec: "kline_payload_to_df (bar_page full_times) interval = Inr (?c # ?cs)"
    using decode_bar_page[OF full_times_facts(2,3), of interval] df by simp
  have "backward_pages stuck path interval e [] None [] =
        backward_pages stuck path interval (earliest_of ?c ?cs - 1) ([] @ [?c # ?cs])
          (Some (earliest_of ?c ?cs)) ([] @ [kline_request path interval e])"
    using dec
    by (intro backward_pages_continue[where data = "bar_page full_times"])
       (simp_all add: stuck_def KLINE_MAX_def more_times_facts)
  also have "\<dots> = backward_pages stuck path interval 59 [?c # ?cs] (Some 60)
                     [kline_request path interval e]"
    by (simp add: earliest_full_times)
  also have "\<dots> = ([kline_request path interval e] @ [kline_request path interval 59],
                    Inr ([?c # ?cs] @ [?c # ?cs]))"
    using dec
    by (intro backward_pages_stop[where data = "bar_page full_times"])
       (simp_all add: stuck_def KLINE_MAX_def earliest_full_times)
  finally show ?thesis by (simp add: df)
qed

text \<open>
  Claim C3. \<^verbatim>\<open>fetch_index_kline_full\<close> and \<^verbatim>\<open>fetch_fair_kline_full\<close> return the pages
  as fetched, without the deduplication and sorting that \<^verbatim>\<open>fetch_kline_full_history\<close>
  applies. On a history of 2001 bars, fetched in two pages, the result holds the latest
  2000 bars first and the earliest bar last, so it is not ascending; on an upstream
  that repeats a full page, the result holds every row twice.
\<close>

theorem index_fair_unsorted_duplicates:
  "snd (fetch_index_kline_full history 200000 ''XAUT_USDT'' ''Min1'')
     = Inr (map (bare ''Min1'') full_times @ [bare ''Min1'' 0])
   \<and> snd (fetch_fair_kline_full history 200000 ''XAUT_USDT'' ''Min1'')
     = Inr (map (bare ''Min1'') full_times @ [bare ''Min1'' 0])
   \<and> \<not> sorted (map k_t (map (bare ''Min1'') full_times @ [bare ''Min1'' 0]))
   \<and> snd (fetch_index_kline_full stuck 200000 ''XAUT_USDT'' ''Min1'')
     = Inr (map (bare ''Min1'') full_times @ map (bare ''Min1'') full_times)
   \<and> snd (fetch_fair_kline_full stuck 200000 ''XAUT_USDT'' ''Min1'')
     = Inr (map (bare ''Min1'') full_times @ map (bare ''Min1'') full_times)
   \<and> \<not> distinct (map key (map (bare ''Min1'') full_times @ map (bare ''Min1'') full_times))"
proof -
  have u: "\<not> sorted (map k_t (map (bare ''Min1'') full_times @ [bare ''Min1'' 0]))"
    by (simp add: full_times_def bare_def sorted_append)
  have d: "\<not> distinct (map key (map (bare ''Min1'') full_times @ map (bare ''Min1'') full_times))"
    by (simp add: full_times_def)
  show ?thesis
    using u d
    by (simp add: fetch_index_kline_full_def fetch_fair_kline_full_def backward_history
          backward_stuck Let_def)
qed

section \<open>Properties of the funding paginator\<close>

lemma funding_pages_malformed:
  assumes "get (length reqs) (funding_request symb page ps) = Inr data"
    and "\<forall>kv. data = JObj kv \<longrightarrow> map_of kv ''resultList'' = None"
  shows "funding_pages get symb ps page rows reqs =
           Some (reqs @ [funding_request symb page ps], Inr rows)"
  using assms
  by (subst funding_pages.simps) (cases data; simp add: Let_def)

lemma funding_pages_continue:
  assumes "get (length reqs) (funding_request symb page ps) = Inr (JObj kv)"
    and "map_of kv ''resultList'' = Some rl" and "page_rows rl = Inr new"
    and "py_int (dict_get kv ''totalPage'' (JInt page)) = Inr tp" and "page < tp"
  shows "funding_pages get symb ps page rows reqs =
           funding_pages get symb ps (page + 1) (rows @ new)
             (reqs @ [funding_request symb page ps])"
  using assms by (subst funding_pages.simps) (simp add: Let_def)


lemma funding_pages_run:
  assumes "\<forall>j<n. \<exists>kv rl tp.
             get (length reqs + j) (funding_request symb (page + int j) ps) = Inr (JObj kv)
           \<and> map_of kv ''resultList'' = Some rl \<and> page_rows rl = Inr (news j)
           \<and> py_int (dict_get kv ''totalPage'' (JInt (page + int j))) = Inr tp
           \<and> page + int j < tp"
  shows "funding_pages get symb ps page rows reqs =
           funding_pages get symb ps (page + int n) (rows @ concat (map news [0..<n]))
             (reqs @ map (\<lambda>j. funding_request symb (page + int j) ps) [0..<n])"
  using assms
proof (induction n)
  case 0
  show ?case by simp
next
  case (Suc n)
  let ?reqs = "reqs @ map (\<lambda>j. funding_request symb (page + int j) ps) [0..<n]"
  let ?rows = "rows @ concat (map news [0..<n])"
  from Suc.prems obtain kv rl tp where
    g: "get (length reqs + n) (funding_request symb (page + int n) ps) = Inr (JObj kv)"
    and r: "map_of kv ''resultList'' = Some rl" "page_rows rl = Inr (news n)"
    and t: "py_int (dict_get kv ''totalPage'' (JInt (page + int n))) = Inr tp"
           "page + int n < tp"
    by blast
  have len: "length ?reqs = length reqs + n" by simp
  have "funding_pages get symb ps page rows reqs
        = funding_pages get symb ps (page + int n) ?rows ?reqs"
    using Suc by simp
  also have "\<dots> = funding_pages get symb ps (page + int n + 1) (?rows @ news n)
                     (?reqs @ [funding_request symb (page + int n) ps])"
    using g r t by (intro funding_pages_continue[where kv = kv and rl = rl and tp = tp])
                   (simp_all only: len)
  finally show ?case by (simp add: add.commute add.left_commute)
qed






lemma three_pages_row:
  "k < 3 \<Longrightarrow>
   page_rows (JArr [JObj [(''symbol'', JStr ''XAUT_USDT''),
                          (''settleTime'', JInt (1700000000000 + 28800000 * int k))]])
     = Inr [row_of_page k]"
  by (simp add: row_of_page_def dict_get_def)


text \<open>
  Claim C10. At any iteration of the funding paginator, when the unwrapped response
  is not a dict or has no \<^verbatim>\<open>resultList\<close> key, the loop stops and the rows accumulated
  so far are returned as a normal result. For a whole run: if the first \<open>n\<close> pages
  are processed and ask for a further page, page \<open>j + 1\<close> contributing the rows
  \<open>news j\<close>, and the response for page \<open>n + 1\<close> is malformed in that way, then
  \<^verbatim>\<open>get_funding_history\<close> returns exactly the rows of those \<open>n\<close> pages, in order (none
  when \<open>n = 0\<close>), after \<open>n + 1\<close> requests.
\<close>

theorem funding_history_malformed_page:
  "(get (length reqs) (funding_request symb page ps) = Inr data
      \<and> (\<forall>kv. data = JObj kv \<longrightarrow> map_of kv ''resultList'' = None) \<longrightarrow>
    funding_pages get symb ps page rows reqs =
      Some (reqs @ [funding_request symb page ps], Inr rows))
   \<and> ((\<forall>j<n. \<exists>kv rl tp.
           get j (funding_request symb (int j + 1) ps) = Inr (JObj kv)
         \<and> map_of kv ''resultList'' = Some rl \<and> page_rows rl = Inr (news j)
         \<and> py_int (dict_get kv ''totalPage'' (JInt (int j + 1))) = Inr tp
         \<and> int j + 1 < tp)
      \<and> get n (funding_request symb (int n + 1) ps) = Inr data
      \<and> (\<forall>kv. data = JObj kv \<longrightarrow> map_of kv ''resultList'' = None) \<longrightarrow>
    get_funding_history get symb ps =
      Some (map (\<lambda>j. funding_request symb (int j + 1) ps) [0..<Suc n],
            Inr (concat (map news [0..<n]))))"
proof (intro conjI impI)
  assume "get (length reqs) (funding_request symb page ps) = Inr data
      \<and> (\<forall>kv. data = JObj kv \<longrightarrow> map_of kv ''resultList'' = None)"
  then show "funding_pages get symb ps page rows reqs =
      Some (reqs @ [funding_request symb page ps], Inr rows)"
    by (intro funding_pages_malformed) auto
next
  assume h: "(\<forall>j<n. \<exists>kv rl tp.
           get j (funding_request symb (int j + 1) ps) = Inr (JObj kv)
         \<and> map_of kv ''resultList'' = Some rl \<and> page_rows rl = Inr (news j)
         \<and> py_int (dict_get kv ''totalPage'' (JInt (int j + 1))) = Inr tp
         \<and> int j + 1 < tp)
      \<and> get n (funding_request symb (int n + 1) ps) = Inr data
      \<and> (\<forall>kv. data = JObj kv \<longrightarrow> map_of kv ''resultList'' = None)"
  have pre: "\<forall>j<n. \<exists>kv rl tp.
             get (length ([] :: request list) + j) (funding_request symb (1 + int j) ps)
               = Inr (JObj kv)
           \<and> map_of kv ''resultList'' = Some rl \<and> page_rows rl = Inr (news j)
           \<and> py_int (dict_get kv ''totalPage'' (JInt (1 + int j))) = Inr tp
           \<and> 1 + int j < tp"
    using h by (simp add: add.commute)
  let ?reqs = "[] @ map (\<lambda>j. funding_request symb (1 + int j) ps) [0..<n]"
  let ?rows = "[] @ concat (map news [0..<n])"
  have len: "length ?reqs = n" by simp
  have "get_funding_history get symb ps = funding_pages get symb ps (1 + int n) ?rows ?reqs"
    unfolding get_funding_history_def by (rule funding_pages_run[OF pre])
  also have "\<dots> = Some (?reqs @ [funding_request symb (1 + int n) ps], Inr ?rows)"
    using h
    by (intro funding_pages_malformed[where data = data])
       (simp_all only: len, simp_all add: add.commute)
  finally show "get_funding_history get symb ps =
      Some (map (\<lambda>j. funding_request symb (int j + 1) ps) [0..<Suc n],
            Inr (concat (map news [0..<n])))"
    by (simp add: add.commute)
qed

theorem funding_history_malformed_page_witness:
  "funding_pages broken_second ''XAUT_USDT'' 1000 2 [row_of_page 0]
       [funding_request ''XAUT_USDT'' 1 1000] =
     Some ([funding_request ''XAUT_USDT'' 1 1000, funding_request ''XAUT_USDT'' 2 1000],
           Inr [row_of_page 0])
   \<and> get_funding_history broken_second ''XAUT_USDT'' 1000 =
     Some ([funding_request ''XAUT_USDT'' 1 1000, funding_request ''XAUT_USDT'' 2 1000],
           Inr [row_of_page 0])"
proof -
  have m: "\<forall>kv. JStr ''maintenance'' = JObj kv \<longrightarrow> map_of kv ''resultList'' = None"
    by simp
  have a: "broken_second (length [funding_request ''XAUT_USDT'' 1 1000])
             (funding_request ''XAUT_USDT'' 2 1000) = Inr (JStr ''maintenance'')
      \<and> (\<forall>kv. JStr ''maintenance'' = JObj kv \<longrightarrow> map_of kv ''resultList'' = None)"
    by (simp add: broken_second_def)
  have b: "(\<forall>j<1. \<exists>kv rl tp.
           broken_second j (funding_request ''XAUT_USDT'' (int j + 1) 1000) = Inr (JObj kv)
         \<and> map_of kv ''resultList'' = Some rl \<and> page_rows rl = Inr ((\<lambda>k. [row_of_page k]) j)
         \<and> py_int (dict_get kv ''totalPage'' (JInt (int j + 1))) = Inr tp
         \<and> int j + 1 < tp)
      \<and> broken_second 1 (funding_request ''XAUT_USDT'' (int 1 + 1) 1000)
          = Inr (JStr ''maintenance'')
      \<and> (\<forall>kv. JStr ''maintenance'' = JObj kv \<longrightarrow> map_of kv ''resultList'' = None)"
    using three_pages_row[of 0]
    by (simp add: broken_second_def three_pages_def dict_get_def del: page_rows.simps)
  note T = funding_history_malformed_page[where get = broken_second and symb = "''XAUT_USDT''"
      and ps = 1000 and data = "JStr ''maintenance''"]
  from T[where reqs = "[funding_request ''XAUT_USDT'' 1 1000]" and page = 2
           and rows = "[row_of_page 0]", THEN conjunct1, THEN mp, OF a]
  have 1: "funding_pages broken_second ''XAUT_USDT'' 1000 2 [row_of_page 0]
       [funding_request ''XAUT_USDT'' 1 1000] =
     Some ([funding_request ''XAUT_USDT'' 1 1000, funding_request ''XAUT_USDT'' 2 1000],
           Inr [row_of_page 0])" by simp
  from T[where n = 1 and news = "\<lambda>k. [row_of_page k]", THEN conjunct2, THEN mp, OF b]
  have 2: "get_funding_history broken_second ''XAUT_USDT'' 1000 =
     Some ([funding_request ''XAUT_USDT'' 1 1000, funding_request ''XAUT_USDT'' 2 1000],
           Inr [row_of_page 0])" by (simp add: upt_rec)
  from 1 2 show ?thesis by simp
qed

section \<open>Properties of the message dispatch\<close>














end
